theory Spec2Isabelle
  imports Complex_Main "HOL-Library.Word" "HOL-Library.Multiset" "HOL-Library.Log_Nat"
    "HOL-Library.Product_Lexorder"
begin

section \<open>The benchmarking harness of \<open>utils.hpp\<close> (\<open>tick::Benchmark\<close>)\<close>

text \<open>
  The embedding follows \<open>struct Benchmark\<close> member by member.

  \<^item> \<open>size_t\<close> is a 64-bit word; its arithmetic wraps, so \<open>v.size() - 1\<close> on an empty
    vector is \<open>2^64 - 1\<close>.
  \<^item> \<open>double\<close> is read in two ways. The harness as a whole (\<open>run\<close>, \<open>print_stats\<close>,
    \<open>export_csv\<close> and the helpers they call) is embedded with a real number for every
    \<open>double\<close>: the statements made about it concern how many samples there are, the
    clamp, which items reach a stream and in which order, and from which set the
    statistics are taken; a computed value stands there for the exact value of the
    expression the code evaluates. The statistics helpers are embedded a second time
    over the values of IEEE 754 binary64 (finite numbers, the two infinities, NaN),
    every operation rounding its exact result to the nearest double; the names of that
    embedding end in \<open>_b64\<close>. What is stated about the value a helper returns (an index,
    a fence, a mean) and about inputs that hold an infinity is stated of the second
    embedding.
  \<^item> In the binary64 embedding each operation is rounded on its own, to nearest with
    ties to even (no fused multiply-add, no wider intermediate format), underflow is
    gradual, and a zero has no sign.
  \<^item> Behaviour the language leaves undefined (indexing past the end, dereferencing an
    end iterator, converting an unrepresentable value to \<open>size_t\<close>, dividing by zero,
    sorting a range that holds a NaN), an exception escaping the benchmarked callable
    and the exception of \<open>std::filesystem::exists\<close> are values of type \<open>fault\<close>;
    a member function returns \<open>fault + result\<close>, \<open>Inl\<close> being the fault.
\<close>

type_synonym size_t = "64 word"

datatype fault =
  DivisionByZero
  | ConversionOutOfRange
  | IndexOutOfRange
  | EndIteratorDereferenced
  | UnorderedComparison
  | OperationThrew
  | FilesystemError

definition and_then :: "fault + 'a \<Rightarrow> ('a \<Rightarrow> fault + 'b) \<Rightarrow> fault + 'b" where
  "and_then m f = (case m of Inl e \<Rightarrow> Inl e | Inr x \<Rightarrow> f x)"

text \<open>\<open>v.size()\<close>: the element count as a \<open>size_t\<close>.\<close>

definition vsize :: "'a list \<Rightarrow> size_t" where
  "vsize v = of_nat (length v)"

text \<open>A \<open>size_t\<close> operand of a \<open>double\<close> operation is converted to \<open>double\<close>.\<close>

definition to_double :: "size_t \<Rightarrow> real" where
  "to_double n = real (unat n)"

text \<open>\<open>x / n\<close> for a \<open>double\<close> \<open>x\<close> and a \<open>size_t\<close> \<open>n\<close>.\<close>

definition fdiv :: "real \<Rightarrow> size_t \<Rightarrow> fault + real" where
  "fdiv x n = (if n = 0 then Inl DivisionByZero else Inr (x / to_double n))"

text \<open>
  \<open>static_cast<size_t>(x)\<close>: the fractional part is discarded (truncation towards
  zero); the conversion is undefined when the truncated value is not a \<open>size_t\<close>.
\<close>

definition toward_zero :: "real \<Rightarrow> int" where
  "toward_zero x = (if 0 \<le> x then \<lfloor>x\<rfloor> else \<lceil>x\<rceil>)"

definition to_size_t :: "real \<Rightarrow> fault + size_t" where
  "to_size_t x =
     (if 0 \<le> toward_zero x \<and> toward_zero x < 2 ^ 64 then Inr (of_int (toward_zero x))
      else Inl ConversionOutOfRange)"

text \<open>\<open>v[idx]\<close>: undefined past the end.\<close>

definition subscript :: "'a list \<Rightarrow> size_t \<Rightarrow> fault + 'a" where
  "subscript v idx = (if unat idx < length v then Inr (v ! unat idx) else Inl IndexOutOfRange)"

subsection \<open>Statistics helpers\<close>

text \<open>
  \<^verbatim>\<open>double sum = 0.0; for (double x : v) sum += x; return sum / v.size();\<close>
\<close>

definition mean :: "real list \<Rightarrow> fault + real" where
  "mean v = fdiv (foldl (\<lambda>sum x. sum + x) 0 v) (vsize v)"

text \<open>
  \<^verbatim>\<open>for (double x : v) sum += (x - avg) * (x - avg); return std::sqrt(sum / v.size());\<close>
\<close>

definition stddev :: "real list \<Rightarrow> real \<Rightarrow> fault + real" where
  "stddev v avg =
     and_then (fdiv (foldl (\<lambda>sum x. sum + (x - avg) * (x - avg)) 0 v) (vsize v))
       (\<lambda>q. Inr (sqrt q))"

text \<open>
  \<^verbatim>\<open>std::sort(v.begin(), v.end());
  size_t idx = static_cast<size_t>(p * (v.size() - 1));
  return v[idx];\<close>
  The parameter \<open>v\<close> is passed by value: the sort works on the callee's copy.
\<close>

definition percentile :: "real list \<Rightarrow> real \<Rightarrow> fault + real" where
  "percentile v p =
     (let v = sort v in
      and_then (to_size_t (p * to_double (vsize v - 1))) (\<lambda>idx. subscript v idx))"

text \<open>
  \<^verbatim>\<open>std::sort(v.begin(), v.end());
  double q1 = percentile(v, 0.25); double q3 = percentile(v, 0.75);
  double iqr = q3 - q1;
  double lo = q1 - 1.5 * iqr; double hi = q3 + 1.5 * iqr;
  for (double x : v) if (x >= lo && x <= hi) out.push_back(x);\<close>
\<close>

definition filter_outliers :: "real list \<Rightarrow> fault + real list" where
  "filter_outliers v =
     (let v = sort v in
      and_then (percentile v 0.25) (\<lambda>q1.
      and_then (percentile v 0.75) (\<lambda>q3.
        let iqr = q3 - q1;
            lo = q1 - 1.5 * iqr;
            hi = q3 + 1.5 * iqr
        in Inr (filter (\<lambda>x. x \<ge> lo \<and> x \<le> hi) v))))"

text \<open>
  \<open>*std::min_element(first, last)\<close> and \<open>*std::max_element(first, last)\<close>: the
  algorithms keep the first smallest (largest) element seen and return \<open>last\<close> on an
  empty range, which must not be dereferenced.
\<close>

definition min_element :: "real list \<Rightarrow> fault + real" where
  "min_element v =
     (case v of [] \<Rightarrow> Inl EndIteratorDereferenced
      | x # xs \<Rightarrow> Inr (foldl (\<lambda>smallest y. if y < smallest then y else smallest) x xs))"

definition max_element :: "real list \<Rightarrow> fault + real" where
  "max_element v =
     (case v of [] \<Rightarrow> Inl EndIteratorDereferenced
      | x # xs \<Rightarrow> Inr (foldl (\<lambda>largest y. if largest < y then y else largest) x xs))"

subsection \<open>The harness object\<close>

text \<open>
  \<^verbatim>\<open>size_t iterations = 10'000; size_t warmup = 1'000; size_t batch_size = 1;
  std::vector<double> samples;\<close>
\<close>

record benchmark =
  iterations :: size_t
  warmup :: size_t
  batch_size :: size_t
  samples :: "real list"

datatype CsvWriteMode = Truncate | Append

subsection \<open>The clock and the benchmarked callable\<close>

text \<open>
  \<open>steady_clock::now()\<close> is an input of the program. The world holds the readings the
  clock will return, in milliseconds, in the order of the calls, and counts the calls
  made so far; any behaviour of the clock is some choice of \<open>readings\<close>. The callable
  works on a state \<open>user\<close> of its own, and \<open>None\<close> is an exception leaving it; it has
  no access to the harness object.
\<close>

record 'u world =
  readings :: "nat \<Rightarrow> real"
  reads :: nat
  user :: 'u

definition now :: "'u world \<Rightarrow> real \<times> 'u world" where
  "now w = (readings w (reads w), w\<lparr>reads := Suc (reads w)\<rparr>)"

definition invoke :: "('u \<Rightarrow> 'u option) \<Rightarrow> 'u world \<Rightarrow> fault + 'u world" where
  "invoke func w =
     (case func (user w) of None \<Rightarrow> Inl OperationThrew | Some u \<Rightarrow> Inr (w\<lparr>user := u\<rparr>))"

text \<open>
  \<^verbatim>\<open>for (size_t i = 0; i < n; ++i) body\<close>, for a body that does not use \<open>i\<close>:
  the body runs \<open>n\<close> times, unless a fault or an exception ends the loop.
\<close>

fun for_loop :: "nat \<Rightarrow> ('s \<Rightarrow> fault + 's) \<Rightarrow> 's \<Rightarrow> fault + 's" where
  "for_loop 0 body s = Inr s"
| "for_loop (Suc n) body s = and_then (body s) (for_loop n body)"

text \<open>
  \<^verbatim>\<open>double total = 0.0;
  for (size_t i = 0; i < iterations; ++i) {
      auto s = clock_t::now(); auto e = clock_t::now();
      std::chrono::duration<double, std::milli> d = e - s;
      total += d.count();
  }
  return total / iterations;\<close>
\<close>

definition overhead_step :: "real \<times> 'u world \<Rightarrow> fault + real \<times> 'u world" where
  "overhead_step = (\<lambda>(total, w).
     let (s, w) = now w;
         (e, w) = now w;
         d = e - s
     in Inr (total + d, w))"

definition measure_overhead :: "benchmark \<Rightarrow> 'u world \<Rightarrow> fault + real \<times> 'u world" where
  "measure_overhead b w =
     and_then (for_loop (unat (iterations b)) overhead_step (0, w)) (\<lambda>(total, w).
     and_then (fdiv total (iterations b)) (\<lambda>overhead. Inr (overhead, w)))"

text \<open>
  One pass of the timed loop of \<open>run\<close>:
  \<^verbatim>\<open>auto start = clock_t::now();
  for (size_t j = 0; j < batch_size; ++j) { func(); ClobberMemory(); }
  auto end = clock_t::now();
  std::chrono::duration<double, std::milli> d = end - start;
  double corrected = d.count() - overhead;
  samples.push_back(corrected < 0 ? 0 : corrected);\<close>
  \<open>ClobberMemory\<close> is a compiler barrier and computes nothing.
\<close>

definition timed_batch ::
  "('u \<Rightarrow> 'u option) \<Rightarrow> real \<Rightarrow> benchmark \<times> 'u world \<Rightarrow> fault + benchmark \<times> 'u world" where
  "timed_batch func overhead = (\<lambda>(b, w).
     let (start, w) = now w in
     and_then (for_loop (unat (batch_size b)) (invoke func) w) (\<lambda>w.
       let (finish, w) = now w;
           d = finish - start;
           corrected = d - overhead
       in Inr (b\<lparr>samples := samples b @ [if corrected < 0 then 0 else corrected]\<rparr>, w)))"

text \<open>
  \<^verbatim>\<open>samples.clear();
  for (size_t i = 0; i < warmup; ++i)
      for (size_t j = 0; j < batch_size; ++j) func();
  double overhead = measure_overhead();
  for (size_t i = 0; i < iterations; ++i) { ... }\<close>
\<close>

definition run ::
  "('u \<Rightarrow> 'u option) \<Rightarrow> benchmark \<times> 'u world \<Rightarrow> fault + benchmark \<times> 'u world" where
  "run func = (\<lambda>(b, w).
     let b = b\<lparr>samples := []\<rparr> in
     and_then (for_loop (unat (warmup b)) (for_loop (unat (batch_size b)) (invoke func)) w) (\<lambda>w.
     and_then (measure_overhead b w) (\<lambda>(overhead, w).
       for_loop (unat (iterations b)) (timed_batch func overhead) (b, w))))"

subsection \<open>Output streams and files\<close>

text \<open>
  A stream keeps what was inserted into it, item by item: a string, a \<open>size_t\<close>, or a
  \<open>double\<close> together with the precision in force when it was inserted. The text the
  library makes of a number is not modelled.
\<close>

datatype item = Text string | Size size_t | Dbl nat real

record ostream =
  precision :: nat
  written :: "item list"

datatype operand = S string | N size_t | D real

text \<open>\<open>os << x\<close>, and \<open>os << a << b << c\<close> as \<open>foldl ins os [a, b, c]\<close>.\<close>

definition as_item :: "nat \<Rightarrow> operand \<Rightarrow> item" where
  "as_item prec x = (case x of S s \<Rightarrow> Text s | N n \<Rightarrow> Size n | D d \<Rightarrow> Dbl prec d)"

definition ins :: "ostream \<Rightarrow> operand \<Rightarrow> ostream" where
  "ins os x = os\<lparr>written := written os @ [as_item (precision os) x]\<rparr>"

definition setprecision :: "nat \<Rightarrow> ostream \<Rightarrow> ostream" where
  "setprecision n os = os\<lparr>precision := n\<rparr>"

text \<open>
  The file system maps each existing path to its contents and tells, for every path,
  whether an output stream can be opened on it, cannot, or whether the path cannot even
  be resolved (no search permission on a directory of the path, a name that is too
  long, a loop of symbolic links): then the file cannot be opened and its status cannot
  be read either. \<open>std::filesystem::exists(p)\<close> is the overload without an
  \<open>error_code\<close>: it throws \<open>filesystem_error\<close> when the status cannot be read.

  A stream opened with \<open>std::ios::app\<close> continues the file (an empty one if there was
  none), one opened with \<open>std::ios::trunc\<close> starts empty; closing it stores what it
  holds. A fresh stream has precision 6.
\<close>

datatype path_access = CanOpen | CannotOpen | CannotResolve

record filesystem =
  files :: "string \<rightharpoonup> item list"
  access :: "string \<Rightarrow> path_access"

definition can_open :: "filesystem \<Rightarrow> string \<Rightarrow> bool" where
  "can_open fs filename = (access fs filename = CanOpen)"

datatype openmode = app | trunc

definition exists_path :: "filesystem \<Rightarrow> string \<Rightarrow> fault + bool" where
  "exists_path fs filename =
     (if access fs filename = CannotResolve then Inl FilesystemError
      else Inr (files fs filename \<noteq> None))"

definition ofstream_open :: "filesystem \<Rightarrow> string \<Rightarrow> openmode \<Rightarrow> ostream option" where
  "ofstream_open fs filename m =
     (if can_open fs filename
      then Some \<lparr>precision = 6,
                 written = (case m of
                              trunc \<Rightarrow> []
                            | app \<Rightarrow> (case files fs filename of None \<Rightarrow> [] | Some old \<Rightarrow> old))\<rparr>
      else None)"

definition ofstream_close :: "filesystem \<Rightarrow> string \<Rightarrow> ostream \<Rightarrow> filesystem" where
  "ofstream_close fs filename file = fs\<lparr>files := (files fs)(filename \<mapsto> written file)\<rparr>"

subsection \<open>Reports\<close>

text \<open>
  \<open>print_stats\<close> writes to \<open>std::cout\<close>, which is passed in and returned. Both report
  functions are \<open>const\<close>; they return the harness object so that this can be stated.
\<close>

definition print_stats :: "benchmark \<times> ostream \<Rightarrow> fault + benchmark \<times> ostream" where
  "print_stats = (\<lambda>(b, cout).
     if samples b = [] then Inr (b, cout)
     else
       and_then (filter_outliers (samples b)) (\<lambda>clean.
       and_then (min_element clean) (\<lambda>min_t.
       and_then (max_element clean) (\<lambda>max_t.
       and_then (mean clean) (\<lambda>avg.
       and_then (stddev clean avg) (\<lambda>sd.
         let cout = foldl ins cout
               [S ''Benchmark results\<newline>'',
                S ''  Iterations: '', N (iterations b), S ''\<newline>'',
                S ''  Batch size: '', N (batch_size b), S ''\<newline>'',
                S ''  Samples:    '', N (vsize clean), S ''\<newline>\<newline>'',
                S ''  Min:   '', D min_t, S '' ms\<newline>'',
                S ''  Max:   '', D max_t, S '' ms\<newline>'',
                S ''  Mean:  '', D avg, S '' ms\<newline>'',
                S ''  Stddev:'', D sd, S '' ms\<newline>\<newline>'']
         in
         and_then (percentile clean 0.50) (\<lambda>p50.
         and_then (percentile clean 0.90) (\<lambda>p90.
         and_then (percentile clean 0.95) (\<lambda>p95.
         and_then (percentile clean 0.99) (\<lambda>p99.
         and_then (fdiv avg (batch_size b)) (\<lambda>per_op.
           Inr (b, foldl ins cout
               [S ''  p50: '', D p50, S '' ms\<newline>'',
                S ''  p90: '', D p90, S '' ms\<newline>'',
                S ''  p95: '', D p95, S '' ms\<newline>'',
                S ''  p99: '', D p99, S '' ms\<newline>\<newline>'',
                S ''  Per-op avg: '', D per_op, S '' ms\<newline>'']))))))))))))"

definition csv_header :: "operand list" where
  "csv_header =
     [S ''Iterations,BatchSize,SamplesUsed,'',
      S ''Min(ms),Max(ms),Mean(ms),Stddev(ms),'',
      S ''p50(ms),p90(ms),p95(ms),p99(ms),PerOpAvg(ms)\<newline>'']"

definition export_csv ::
  "string \<Rightarrow> CsvWriteMode \<Rightarrow> benchmark \<times> filesystem \<Rightarrow> fault + benchmark \<times> filesystem" where
  "export_csv filename mode = (\<lambda>(b, fs).
     if samples b = [] then Inr (b, fs)
     else
       and_then (filter_outliers (samples b)) (\<lambda>clean.
       and_then (min_element clean) (\<lambda>min_t.
       and_then (max_element clean) (\<lambda>max_t.
       and_then (mean clean) (\<lambda>avg.
       and_then (stddev clean avg) (\<lambda>sd.
       and_then (if mode = Append
                 then and_then (exists_path fs filename)
                        (\<lambda>found. Inr (if found then False else True))
                 else Inr True) (\<lambda>write_header.
         case ofstream_open fs filename (if mode = Append then app else trunc) of
           None \<Rightarrow> Inr (b, fs)
         | Some file \<Rightarrow>
             let file = setprecision 10 file;
                 file = (if write_header then foldl ins file csv_header else file)
             in
             and_then (percentile clean 0.50) (\<lambda>p50.
             and_then (percentile clean 0.90) (\<lambda>p90.
             and_then (percentile clean 0.95) (\<lambda>p95.
             and_then (percentile clean 0.99) (\<lambda>p99.
             and_then (fdiv avg (batch_size b)) (\<lambda>per_op.
               Inr (b, ofstream_close fs filename (foldl ins file
                 [N (iterations b), S '','',
                  N (batch_size b), S '','',
                  N (vsize clean), S '','',
                  D min_t, S '','',
                  D max_t, S '','',
                  D avg, S '','',
                  D sd, S '','',
                  D p50, S '','',
                  D p90, S '','',
                  D p95, S '','',
                  D p99, S '','',
                  D per_op, S ''\<newline>'']))))))))))))))"

subsection \<open>Binary64 arithmetic\<close>

text \<open>
  A \<open>double\<close> is a finite number, an infinity or NaN. \<open>fl x\<close> is the double nearest to
  the real number \<open>x\<close>: with \<open>exponent x\<close> the binary exponent of \<open>x\<close> (the \<open>e\<close> with
  \<open>2^e \<le> |x| < 2^(e+1)\<close>), the doubles around \<open>x\<close> are the multiples of \<open>ulp x\<close>, which
  leaves 53 significant bits down to the exponent \<open>-1022\<close> and the fixed spacing
  \<open>2^-1074\<close> below it; \<open>x\<close> is rounded to the nearest multiple, a tie going to the even
  one, and a result of magnitude \<open>2^1024\<close> or more is an infinity. A literal of the
  source such as \<open>0.25\<close> denotes \<open>fl 0.25\<close>.
\<close>

datatype double = Finite real | PosInf | NegInf | NaN

definition exponent :: "real \<Rightarrow> int" where
  "exponent x = (if 1 \<le> \<bar>x\<bar> then bitlen \<lfloor>\<bar>x\<bar>\<rfloor> - 1 else - bitlen (\<lceil>1 / \<bar>x\<bar>\<rceil> - 1))"

definition ulp :: "real \<Rightarrow> real" where
  "ulp x = 2 powi (max (exponent x) (- 1022) - 52)"

definition round_even :: "real \<Rightarrow> int" where
  "round_even y =
     (let f = \<lfloor>y\<rfloor>; r = y - of_int f
      in if r < 1 / 2 then f else if 1 / 2 < r then f + 1 else if even f then f else f + 1)"

definition round_real :: "real \<Rightarrow> real" where
  "round_real x = (if x = 0 then 0 else of_int (round_even (x / ulp x)) * ulp x)"

definition huge :: real where
  "huge = 2 ^ 1024"

definition fl :: "real \<Rightarrow> double" where
  "fl x = (let y = round_real x
           in if huge \<le> y then PosInf else if y \<le> - huge then NegInf else Finite y)"

text \<open>
  The operators \<open>+\<close>, \<open>-\<close>, \<open>*\<close>, \<open>/\<close>, \<open>std::sqrt\<close> and \<open><\<close>, \<open><=\<close>, \<open>>=\<close> of \<open>double\<close>.
  On finite operands the result is the exact one, rounded; a NaN operand gives NaN and
  makes every comparison false.
\<close>

fun dadd :: "double \<Rightarrow> double \<Rightarrow> double" where
  "dadd (Finite a) (Finite b) = fl (a + b)"
| "dadd NaN y = NaN"
| "dadd x NaN = NaN"
| "dadd PosInf NegInf = NaN"
| "dadd NegInf PosInf = NaN"
| "dadd PosInf y = PosInf"
| "dadd x PosInf = PosInf"
| "dadd NegInf y = NegInf"
| "dadd x NegInf = NegInf"

fun dsub :: "double \<Rightarrow> double \<Rightarrow> double" where
  "dsub (Finite a) (Finite b) = fl (a - b)"
| "dsub NaN y = NaN"
| "dsub x NaN = NaN"
| "dsub PosInf PosInf = NaN"
| "dsub NegInf NegInf = NaN"
| "dsub PosInf y = PosInf"
| "dsub x NegInf = PosInf"
| "dsub NegInf y = NegInf"
| "dsub x PosInf = NegInf"

fun dmul :: "double \<Rightarrow> double \<Rightarrow> double" where
  "dmul (Finite a) (Finite b) = fl (a * b)"
| "dmul NaN y = NaN"
| "dmul x NaN = NaN"
| "dmul (Finite a) y = (if a = 0 then NaN else if (0 < a) = (y = PosInf) then PosInf else NegInf)"
| "dmul x (Finite b) = (if b = 0 then NaN else if (0 < b) = (x = PosInf) then PosInf else NegInf)"
| "dmul x y = (if x = y then PosInf else NegInf)"

fun ddiv :: "double \<Rightarrow> double \<Rightarrow> double" where
  "ddiv (Finite a) (Finite b) =
     (if b = 0 then (if a = 0 then NaN else if 0 < a then PosInf else NegInf) else fl (a / b))"
| "ddiv NaN y = NaN"
| "ddiv x NaN = NaN"
| "ddiv (Finite a) y = Finite 0"
| "ddiv x (Finite b) = (if (0 \<le> b) = (x = PosInf) then PosInf else NegInf)"
| "ddiv x y = NaN"

fun dsqrt :: "double \<Rightarrow> double" where
  "dsqrt (Finite a) = (if a < 0 then NaN else fl (sqrt a))"
| "dsqrt PosInf = PosInf"
| "dsqrt NegInf = NaN"
| "dsqrt NaN = NaN"

fun dlt :: "double \<Rightarrow> double \<Rightarrow> bool" where
  "dlt (Finite a) (Finite b) = (a < b)"
| "dlt NaN y = False"
| "dlt x NaN = False"
| "dlt NegInf y = (y \<noteq> NegInf)"
| "dlt x PosInf = (x \<noteq> PosInf)"
| "dlt x y = False"

definition dle :: "double \<Rightarrow> double \<Rightarrow> bool" where
  "dle x y = (x \<noteq> NaN \<and> y \<noteq> NaN \<and> \<not> dlt y x)"

definition dge :: "double \<Rightarrow> double \<Rightarrow> bool" where
  "dge x y = dle y x"

text \<open>
  The conversions between \<open>size_t\<close> and \<open>double\<close> (a \<open>size_t\<close> above \<open>2^53\<close> is rounded;
  an infinity or a NaN has no \<open>size_t\<close> value), and \<open>x / n\<close> for a \<open>size_t\<close> \<open>n\<close>.
\<close>

definition of_size :: "size_t \<Rightarrow> double" where
  "of_size n = fl (to_double n)"

definition to_size_t_b64 :: "double \<Rightarrow> fault + size_t" where
  "to_size_t_b64 d = (case d of Finite x \<Rightarrow> to_size_t x | _ \<Rightarrow> Inl ConversionOutOfRange)"

definition fdiv_b64 :: "double \<Rightarrow> size_t \<Rightarrow> fault + double" where
  "fdiv_b64 x n = (if n = 0 then Inl DivisionByZero else Inr (ddiv x (of_size n)))"

subsection \<open>Statistics helpers in binary64\<close>

text \<open>
  \<open>std::sort\<close> orders by \<open><\<close>: negative infinity first, the finite values by size,
  positive infinity last. A NaN is unordered with everything: on a range that holds
  one, \<open><\<close> is in general not a strict weak order and the call is undefined, and where
  it is one the order of the result is unspecified. The embedding gives such a call no
  result.
\<close>

definition order_key :: "double \<Rightarrow> int \<times> real" where
  "order_key d = (case d of NegInf \<Rightarrow> (- 1, 0) | Finite x \<Rightarrow> (0, x) | PosInf \<Rightarrow> (1, 0) | NaN \<Rightarrow> (2, 0))"

definition sort_b64 :: "double list \<Rightarrow> fault + double list" where
  "sort_b64 v = (if NaN \<in> set v then Inl UnorderedComparison else Inr (sort_key order_key v))"

text \<open>
  \<open>mean\<close>, \<open>stddev\<close>, \<open>percentile\<close>, \<open>filter_outliers\<close>, \<open>std::min_element\<close> and
  \<open>std::max_element\<close>, statement by statement as above, every operation now that of
  \<open>double\<close>: the running sums are rounded after each addition, the product
  \<open>p * (v.size() - 1)\<close> is rounded before it is truncated, and \<open>iqr\<close>, \<open>lo\<close> and \<open>hi\<close> are
  rounded one after the other.
\<close>

definition mean_b64 :: "double list \<Rightarrow> fault + double" where
  "mean_b64 v = fdiv_b64 (foldl (\<lambda>sum x. dadd sum x) (Finite 0) v) (vsize v)"

definition stddev_b64 :: "double list \<Rightarrow> double \<Rightarrow> fault + double" where
  "stddev_b64 v avg =
     and_then (fdiv_b64 (foldl (\<lambda>sum x. dadd sum (dmul (dsub x avg) (dsub x avg))) (Finite 0) v)
                 (vsize v))
       (\<lambda>q. Inr (dsqrt q))"

definition percentile_b64 :: "double list \<Rightarrow> double \<Rightarrow> fault + double" where
  "percentile_b64 v p =
     and_then (sort_b64 v) (\<lambda>v.
     and_then (to_size_t_b64 (dmul p (of_size (vsize v - 1)))) (\<lambda>idx. subscript v idx))"

definition filter_outliers_b64 :: "double list \<Rightarrow> fault + double list" where
  "filter_outliers_b64 v =
     and_then (sort_b64 v) (\<lambda>v.
     and_then (percentile_b64 v (fl 0.25)) (\<lambda>q1.
     and_then (percentile_b64 v (fl 0.75)) (\<lambda>q3.
       let iqr = dsub q3 q1;
           lo = dsub q1 (dmul (fl 1.5) iqr);
           hi = dadd q3 (dmul (fl 1.5) iqr)
       in Inr (filter (\<lambda>x. dge x lo \<and> dle x hi) v))))"

definition min_element_b64 :: "double list \<Rightarrow> fault + double" where
  "min_element_b64 v =
     (case v of [] \<Rightarrow> Inl EndIteratorDereferenced
      | x # xs \<Rightarrow> Inr (foldl (\<lambda>smallest y. if dlt y smallest then y else smallest) x xs))"

definition max_element_b64 :: "double list \<Rightarrow> fault + double" where
  "max_element_b64 v =
     (case v of [] \<Rightarrow> Inl EndIteratorDereferenced
      | x # xs \<Rightarrow> Inr (foldl (\<lambda>largest y. if dlt largest y then y else largest) x xs))"

text \<open>
  The values \<open>print_stats\<close> and \<open>export_csv\<close> compute, in the order in which both
  compute them: nothing when \<open>samples.empty()\<close>; otherwise the cleaned set, its
  minimum and maximum (the dereferenced results of \<open>std::min_element\<close> and
  \<open>std::max_element\<close>), its mean and standard deviation, the four percentiles and
  \<open>avg / batch_size\<close>.
\<close>

definition report_calls_b64 :: "size_t \<Rightarrow> double list \<Rightarrow> fault + double list" where
  "report_calls_b64 bs v =
     (if v = [] then Inr []
      else
        and_then (filter_outliers_b64 v) (\<lambda>clean.
        and_then (min_element_b64 clean) (\<lambda>min_t.
        and_then (max_element_b64 clean) (\<lambda>max_t.
        and_then (mean_b64 clean) (\<lambda>avg.
        and_then (stddev_b64 clean avg) (\<lambda>sd.
        and_then (percentile_b64 clean (fl 0.50)) (\<lambda>p50.
        and_then (percentile_b64 clean (fl 0.90)) (\<lambda>p90.
        and_then (percentile_b64 clean (fl 0.95)) (\<lambda>p95.
        and_then (percentile_b64 clean (fl 0.99)) (\<lambda>p99.
        and_then (fdiv_b64 avg bs) (\<lambda>per_op.
          Inr [min_t, max_t, avg, sd, p50, p90, p95, p99, per_op])))))))))))"

subsection \<open>Notions used in the statements\<close>

text \<open>The index the specification gives for the \<open>p\<close>-th percentile of \<open>n\<close> values.\<close>

definition spec_rank :: "nat \<Rightarrow> real \<Rightarrow> nat" where
  "spec_rank n p = nat \<lfloor>p * real (n - 1)\<rfloor>"

text \<open>
  The milliseconds between the \<open>k\<close>-th reading of the clock and the next one: what a
  pair of calls of \<open>now\<close> measures when the first of them is the \<open>k\<close>-th call.
\<close>

definition elapsed :: "'u world \<Rightarrow> nat \<Rightarrow> real" where
  "elapsed w k = readings w (Suc k) - readings w k"

text \<open>
  The specification's Report, field by field, in its own words: the cleaned set is the
  ascending sort restricted to the Tukey fences around the nearest-rank quartiles, and
  every statistic is taken from the cleaned set.
\<close>

definition spec_percentile :: "real list \<Rightarrow> real \<Rightarrow> real" where
  "spec_percentile v p = sort v ! spec_rank (length v) p"

definition spec_cleaned :: "real list \<Rightarrow> real list" where
  "spec_cleaned v =
     (let q1 = spec_percentile v 0.25;
          q3 = spec_percentile v 0.75;
          iqr = q3 - q1
      in filter (\<lambda>x. q1 - 1.5 * iqr \<le> x \<and> x \<le> q3 + 1.5 * iqr) (sort v))"

record report =
  r_iterations :: size_t
  r_batch_size :: size_t
  r_samples_used :: size_t
  r_min :: real
  r_max :: real
  r_mean :: real
  r_stddev :: real
  r_p50 :: real
  r_p90 :: real
  r_p95 :: real
  r_p99 :: real
  r_per_op_avg :: real

definition spec_report :: "benchmark \<Rightarrow> report" where
  "spec_report b =
     (let c = spec_cleaned (samples b);
          n = real (length c);
          m = sum_list c / n
      in \<lparr>r_iterations = iterations b,
          r_batch_size = batch_size b,
          r_samples_used = of_nat (length c),
          r_min = Min (set c),
          r_max = Max (set c),
          r_mean = m,
          r_stddev = sqrt ((\<Sum>x\<leftarrow>c. (x - m)\<^sup>2) / n),
          r_p50 = spec_percentile c 0.50,
          r_p90 = spec_percentile c 0.90,
          r_p95 = spec_percentile c 0.95,
          r_p99 = spec_percentile c 0.99,
          r_per_op_avg = m / real (unat (batch_size b))\<rparr>)"


definition csv_row :: "report \<Rightarrow> operand list" where
  "csv_row r =
     [N (r_iterations r), S '','', N (r_batch_size r), S '','', N (r_samples_used r), S '','',
      D (r_min r), S '','', D (r_max r), S '','', D (r_mean r), S '','', D (r_stddev r), S '','',
      D (r_p50 r), S '','', D (r_p90 r), S '','', D (r_p95 r), S '','', D (r_p99 r), S '','',
      D (r_per_op_avg r), S ''\<newline>'']"

text \<open>The header and the data row of a harness as they stand in a file.\<close>

definition header_items :: "item list" where
  "header_items = map (as_item 10) csv_header"

definition row_items :: "benchmark \<Rightarrow> item list" where
  "row_items b = map (as_item 10) (csv_row (spec_report b))"

text \<open>
  The values a \<open>double\<close> variable can hold besides the infinities and NaN: the real
  numbers that rounding leaves as they are.
\<close>

definition is_finite_double :: "double \<Rightarrow> bool" where
  "is_finite_double d = (case d of Finite x \<Rightarrow> fl x = Finite x | _ \<Rightarrow> False)"

text \<open>A double that is zero, positive or positive infinity.\<close>

definition nonneg_or_inf :: "double \<Rightarrow> bool" where
  "nonneg_or_inf d = (case d of Finite r \<Rightarrow> 0 \<le> r | PosInf \<Rightarrow> True | _ \<Rightarrow> False)"

section \<open>Properties of the statistics helpers\<close>

lemma and_then_simps:
  "and_then (Inl e) f = Inl e"
  "and_then (Inr x) f = f x"
  by (simp_all add: and_then_def)

text \<open>A vector's size fits \<open>size_t\<close>; for such a list \<open>vsize\<close> is its length.\<close>

lemma vsize_unat: "length v < 2 ^ 64 \<Longrightarrow> unat (vsize v) = length v"
  by (simp add: vsize_def unat_of_nat take_bit_nat_eq_self)

lemma vsize_eq_0: "length v < 2 ^ 64 \<Longrightarrow> vsize v = 0 \<longleftrightarrow> v = []"
  using vsize_unat [of v] by (metis length_0_conv unat_0 unat_eq_0)

lemma vsize_minus_one:
  assumes "v \<noteq> []" "length v < 2 ^ 64"
  shows "to_double (vsize v - 1) = real (length v - 1)"
proof -
  have "vsize v \<noteq> 0" using assms by (simp add: vsize_eq_0)
  then have "unat (vsize v - 1) = length v - 1"
    using assms(2) by (simp add: unat_minus_one vsize_unat)
  then show ?thesis by (simp add: to_double_def)
qed

lemma to_size_t_floor:
  assumes "0 \<le> x" "x < 2 ^ 64"
  shows "to_size_t x = Inr (of_nat (nat \<lfloor>x\<rfloor>))"
    and "unat (of_nat (nat \<lfloor>x\<rfloor>) :: size_t) = nat \<lfloor>x\<rfloor>"
proof -
  have f: "0 \<le> \<lfloor>x\<rfloor>" "\<lfloor>x\<rfloor> < 2 ^ 64"
    using assms by (simp_all add: floor_less_iff)
  show "to_size_t x = Inr (of_nat (nat \<lfloor>x\<rfloor>))"
    using assms f by (simp add: to_size_t_def toward_zero_def)
  have "nat \<lfloor>x\<rfloor> < 2 ^ 64" using f by (simp add: nat_less_iff)
  then show "unat (of_nat (nat \<lfloor>x\<rfloor>) :: size_t) = nat \<lfloor>x\<rfloor>"
    by (simp add: unat_of_nat take_bit_nat_eq_self)
qed

lemma spec_rank_less:
  assumes "0 < n" "0 \<le> p" "p \<le> 1"
  shows "spec_rank n p < n"
proof -
  have "p * real (n - 1) \<le> real (n - 1)"
    using assms by (simp add: mult_left_le_one_le)
  then have "\<lfloor>p * real (n - 1)\<rfloor> \<le> int (n - 1)"
    by (simp add: floor_le_iff)
  then show ?thesis using assms(1) by (simp add: spec_rank_def nat_less_iff)
qed

lemma spec_rank_mono: "0 \<le> p \<Longrightarrow> p \<le> q \<Longrightarrow> spec_rank n p \<le> spec_rank n q"
  unfolding spec_rank_def by (intro nat_mono floor_mono mult_right_mono) simp_all

lemma sort_not_Nil: "v \<noteq> [] \<Longrightarrow> sort v \<noteq> []"
  by (metis length_sort length_0_conv)

lemma percentile_nonempty:
  assumes "v \<noteq> []" "length v < 2 ^ 64" "0 \<le> p" "p \<le> 1"
  shows "percentile v p = Inr (sort v ! spec_rank (length v) p)"
proof -
  let ?x = "p * real (length v - 1)"
  have x0: "0 \<le> ?x" using assms by simp
  have "?x \<le> real (length v - 1)" using assms by (simp add: mult_left_le_one_le)
  also have "\<dots> < 2 ^ 64" using assms(2)
    by (metis less_imp_diff_less of_nat_less_numeral_power_cancel_iff)
  finally have x1: "?x < 2 ^ 64" .
  have r: "spec_rank (length v) p < length v" using assms by (simp add: spec_rank_less)
  have s: "to_double (vsize (sort v) - 1) = real (length v - 1)"
    using vsize_minus_one [of "sort v"] assms by (simp add: sort_not_Nil)
  have c: "to_size_t ?x = Inr (of_nat (spec_rank (length v) p))"
    and u: "unat (of_nat (spec_rank (length v) p) :: size_t) = spec_rank (length v) p"
    using to_size_t_floor [OF x0 x1] unfolding spec_rank_def by blast+
  have "percentile v p = subscript (sort v) (of_nat (spec_rank (length v) p))"
    unfolding percentile_def Let_def s c and_then_simps ..
  also have "\<dots> = Inr (sort v ! spec_rank (length v) p)"
    unfolding subscript_def u using r by simp
  finally show ?thesis .
qed

lemma percentile_sort: "percentile (sort v) p = percentile v p"
  by (simp add: percentile_def vsize_def sorted_sort_id)

lemma foldl_add: "foldl (\<lambda>sum x. sum + f x) a v = a + (\<Sum>x\<leftarrow>v. f x)" for a :: real
  by (induction v arbitrary: a) simp_all

lemma mean_nonempty:
  "v \<noteq> [] \<Longrightarrow> length v < 2 ^ 64 \<Longrightarrow> mean v = Inr (sum_list v / real (length v))"
  using foldl_add [of "\<lambda>x. x" 0 v]
  by (simp add: mean_def fdiv_def vsize_eq_0 to_double_def vsize_unat)

lemma stddev_nonempty:
  "v \<noteq> [] \<Longrightarrow> length v < 2 ^ 64 \<Longrightarrow>
   stddev v avg = Inr (sqrt ((\<Sum>x\<leftarrow>v. (x - avg)\<^sup>2) / real (length v)))"
  using foldl_add [of "\<lambda>x. (x - avg) * (x - avg)" 0 v]
  by (simp add: stddev_def fdiv_def vsize_eq_0 to_double_def vsize_unat and_then_simps
      power2_eq_square)

lemma min_element_nonempty:
  assumes "v \<noteq> []"
  shows "min_element v = Inr (Min (set v))"
proof -
  obtain x xs where v: "v = x # xs" using assms by (cases v) auto
  have "(\<lambda>(smallest::real) y. if y < smallest then y else smallest) = (\<lambda>s y. min y s)"
    by (auto simp: fun_eq_iff min_def)
  then have "foldl (\<lambda>(smallest::real) y. if y < smallest then y else smallest) x xs = fold min xs x"
    by (simp add: foldl_conv_fold)
  also have "\<dots> = Min (set (x # xs))"
    by (rule Min.set_eq_fold [symmetric])
  finally show ?thesis by (simp add: min_element_def v)
qed

lemma max_element_nonempty:
  assumes "v \<noteq> []"
  shows "max_element v = Inr (Max (set v))"
proof -
  obtain x xs where v: "v = x # xs" using assms by (cases v) auto
  have "(\<lambda>(largest::real) y. if largest < y then y else largest) = (\<lambda>s y. max y s)"
    by (auto simp: fun_eq_iff max_def)
  then have "foldl (\<lambda>(largest::real) y. if largest < y then y else largest) x xs = fold max xs x"
    by (simp add: foldl_conv_fold)
  also have "\<dots> = Max (set (x # xs))"
    by (rule Max.set_eq_fold [symmetric])
  finally show ?thesis by (simp add: max_element_def v)
qed

text \<open>
  On a non-empty vector \<open>filter_outliers\<close> keeps the values between the fences, and the
  first quartile is one of them.
\<close>

lemma filter_outliers_nonempty:
  assumes "v \<noteq> []" "length v < 2 ^ 64"
  defines "q1 \<equiv> sort v ! spec_rank (length v) (1 / 4)"
    and "q3 \<equiv> sort v ! spec_rank (length v) (3 / 4)"
  shows "filter_outliers v =
           Inr (filter (\<lambda>x. q1 - 3 / 2 * (q3 - q1) \<le> x \<and> x \<le> q3 + 3 / 2 * (q3 - q1)) (sort v))"
    and "q1 \<le> q3"
    and "q1 \<in> set (sort v)"
proof -
  have s: "sort v \<noteq> []" "length (sort v) < 2 ^ 64" "sort (sort v) = sort v"
    using assms(1,2) by (simp_all add: sort_not_Nil sorted_sort_id)
  have p1: "percentile (sort v) 0.25 = Inr q1"
    using percentile_nonempty [OF s(1,2), of "0.25"] by (simp add: q1_def s(3))
  have p3: "percentile (sort v) 0.75 = Inr q3"
    using percentile_nonempty [OF s(1,2), of "0.75"] by (simp add: q3_def s(3))
  show "filter_outliers v =
           Inr (filter (\<lambda>x. q1 - 3 / 2 * (q3 - q1) \<le> x \<and> x \<le> q3 + 3 / 2 * (q3 - q1)) (sort v))"
    unfolding filter_outliers_def Let_def p1 p3 and_then_simps by simp
  have r3: "spec_rank (length v) (3 / 4) < length v"
    using assms(1) by (simp add: spec_rank_less)
  have "spec_rank (length v) (1 / 4) \<le> spec_rank (length v) (3 / 4)"
    by (rule spec_rank_mono) simp_all
  then show "q1 \<le> q3"
    unfolding q1_def q3_def using r3 by (simp add: sorted_nth_mono)
  have "spec_rank (length v) (1 / 4) < length (sort v)"
    using assms(1) by (simp add: spec_rank_less)
  then show "q1 \<in> set (sort v)"
    unfolding q1_def by (rule nth_mem)
qed

section \<open>The claims about the statistics\<close>

text \<open>
  Claim C4, amended. On \<open>[1, 2, 3, 4, 5, 100]\<close> \<open>filter_outliers\<close> removes 100 and
  keeps the rest; the quartiles are \<open>Q1 = 2\<close> and \<open>Q3 = 4\<close> (indices
  \<open>floor (0.25 * 5) = 1\<close> and \<open>floor (0.75 * 5) = 3\<close>), and the upper fence is 7,
  below 100.
\<close>

theorem filter_outliers_example:
  "filter_outliers [1, 2, 3, 4, 5, 100] = Inr [1, 2, 3, 4, 5]
   \<and> percentile [1, 2, 3, 4, 5, 100] 0.25 = Inr 2
   \<and> percentile [1, 2, 3, 4, 5, 100] 0.75 = Inr 4
   \<and> (4::real) + 1.5 * (4 - 2) = 7 \<and> (7::real) < 100"
  by (simp add: filter_outliers_def percentile_def vsize_def to_double_def to_size_t_def
      toward_zero_def subscript_def and_then_simps)

text \<open>The third quartile of that vector is not 4.5, the value the claim gives.\<close>

theorem quartiles_of_example_counterexample:
  "percentile [1, 2, 3, 4, 5, 100] 0.75 \<noteq> Inr 4.5"
  by (simp add: percentile_def vsize_def to_double_def to_size_t_def toward_zero_def
      subscript_def and_then_simps)

section \<open>The execution engine\<close>

text \<open>The callable does not touch the clock, so the loops of calls leave it as it is.\<close>

lemma invoke_clock:
  "invoke func w = Inr w' \<Longrightarrow> readings w' = readings w \<and> reads w' = reads w"
  by (auto simp: invoke_def split: option.splits)

lemma for_loop_Inr_step:
  "for_loop (Suc n) body s = Inr s'' \<longleftrightarrow> (\<exists>s'. body s = Inr s' \<and> for_loop n body s' = Inr s'')"
  by (cases "body s") (simp_all add: and_then_simps)

lemma for_loop_clock:
  assumes "\<And>w w'. body w = Inr w' \<Longrightarrow> readings w' = readings w \<and> reads w' = reads w"
  shows "for_loop n body w = Inr w' \<Longrightarrow> readings w' = readings w \<and> reads w' = reads w"
proof (induction n arbitrary: w)
  case 0
  then show ?case by simp
next
  case (Suc n)
  from Suc.prems obtain w1 where "body w = Inr w1" "for_loop n body w1 = Inr w'"
    unfolding for_loop_Inr_step by blast
  then show ?case using Suc.IH [of w1] assms [of w w1] by simp
qed

lemma warmup_clock:
  "for_loop m (for_loop n (invoke func)) w = Inr w' \<Longrightarrow>
   readings w' = readings w \<and> reads w' = reads w"
  by (rule for_loop_clock [where body = "for_loop n (invoke func)"])
     (rule for_loop_clock [where body = "invoke func"], rule invoke_clock)

lemma overhead_loop:
  "for_loop n overhead_step (t0, w) =
     Inr (t0 + (\<Sum>i\<leftarrow>[0..<n]. elapsed w (reads w + 2 * i)), w\<lparr>reads := reads w + 2 * n\<rparr>)"
proof (induction n arbitrary: t0 w)
  case 0
  then show ?case by simp
next
  case (Suc n)
  let ?w = "w\<lparr>reads := Suc (Suc (reads w))\<rparr>"
  have step: "overhead_step (t0, w) = Inr (t0 + elapsed w (reads w), ?w)"
    by (simp add: overhead_step_def now_def elapsed_def)
  have e: "elapsed ?w = elapsed w" by (simp add: elapsed_def fun_eq_iff)
  have "(\<Sum>i\<leftarrow>[0..<Suc n]. elapsed w (reads w + 2 * i))
        = elapsed w (reads w) + (\<Sum>i\<leftarrow>[0..<n]. elapsed w (reads w + 2 * Suc i))"
    unfolding upt_conv_Cons [OF zero_less_Suc] map_Suc_upt [symmetric] by (simp add: comp_def)
  then show ?case
    by (simp add: step and_then_simps Suc.IH e)
qed

lemma measure_overhead_eq:
  assumes "iterations b \<noteq> 0"
  shows "measure_overhead b w =
     Inr ((\<Sum>i\<leftarrow>[0..<unat (iterations b)]. elapsed w (reads w + 2 * i)) / real (unat (iterations b)),
          w\<lparr>reads := reads w + 2 * unat (iterations b)\<rparr>)"
  using assms by (simp add: measure_overhead_def overhead_loop and_then_simps fdiv_def to_double_def)

lemma measure_overhead_zero: "iterations b = 0 \<Longrightarrow> measure_overhead b w = Inl DivisionByZero"
  by (simp add: measure_overhead_def overhead_loop and_then_simps fdiv_def)

lemma timed_batch_Inr:
  assumes "timed_batch func overhead (b, w) = Inr (b', w')"
  shows "b' = b\<lparr>samples := samples b @ [max 0 (elapsed w (reads w) - overhead)]\<rparr>"
    and "readings w' = readings w" and "reads w' = reads w + 2"
    and "elapsed w' = elapsed w"
proof -
  let ?w = "w\<lparr>reads := Suc (reads w)\<rparr>"
  obtain w1 where l: "for_loop (unat (batch_size b)) (invoke func) ?w = Inr w1"
    and r: "Inr (b', w') = (let (finish, w2) = now w1; d = finish - readings w (reads w); corrected = d - overhead
             in Inr (b\<lparr>samples := samples b @ [if corrected < 0 then 0 else corrected]\<rparr>, w2) :: fault + benchmark \<times> 'a world)"
    using assms
    by (cases "for_loop (unat (batch_size b)) (invoke func) ?w")
       (simp_all add: timed_batch_def now_def and_then_simps)
  have c: "readings w1 = readings w" "reads w1 = Suc (reads w)"
    using for_loop_clock [where body = "invoke func", OF invoke_clock l] by simp_all
  show "b' = b\<lparr>samples := samples b @ [max 0 (elapsed w (reads w) - overhead)]\<rparr>"
    using r c by (simp add: now_def Let_def elapsed_def max_def not_less)
  show "readings w' = readings w" "reads w' = reads w + 2"
    using r c by (simp_all add: now_def Let_def)
  then show "elapsed w' = elapsed w" by (simp add: elapsed_def fun_eq_iff)
qed

lemma timed_loop_Inr:
  "for_loop n (timed_batch func overhead) (b, w) = Inr (b', w') \<Longrightarrow>
   b' = b\<lparr>samples := samples b @
          map (\<lambda>i. max 0 (elapsed w (reads w + 2 * i) - overhead)) [0..<n]\<rparr>"
proof (induction n arbitrary: b w)
  case 0
  then show ?case by simp
next
  case (Suc n)
  from Suc.prems obtain b1 w1 where s: "timed_batch func overhead (b, w) = Inr (b1, w1)"
    and l: "for_loop n (timed_batch func overhead) (b1, w1) = Inr (b', w')"
    unfolding for_loop_Inr_step by auto
  note t = timed_batch_Inr [OF s]
  have m: "map (\<lambda>i. max 0 (elapsed w (reads w + 2 * i) - overhead)) [0..<Suc n]
        = max 0 (elapsed w (reads w) - overhead)
          # map (\<lambda>i. max 0 (elapsed w (reads w + 2 * Suc i) - overhead)) [0..<n]"
    unfolding upt_conv_Cons [OF zero_less_Suc] map_Suc_upt [symmetric] by (simp add: comp_def)
  show ?case
    unfolding Suc.IH [OF l] m by (simp add: t)
qed

lemma run_Inr:
  assumes "run func (b, w) = Inr (b', w')"
  defines "n \<equiv> unat (iterations b)"
  defines "overhead \<equiv> (\<Sum>i\<leftarrow>[0..<n]. elapsed w (reads w + 2 * i)) / real n"
  shows "iterations b \<noteq> 0"
    and "b' = b\<lparr>samples := map (\<lambda>i. max 0 (elapsed w (reads w + 2 * n + 2 * i) - overhead)) [0..<n]\<rparr>"
proof -
  let ?b = "b\<lparr>samples := []\<rparr>"
  let ?warm = "for_loop (unat (warmup b)) (for_loop (unat (batch_size b)) (invoke func)) w"
  have r: "run func (b, w) =
      and_then ?warm (\<lambda>w.
      and_then (measure_overhead ?b w) (\<lambda>(overhead, w).
        for_loop n (timed_batch func overhead) (?b, w)))"
    by (simp add: run_def n_def Let_def)
  obtain w1 where w1: "?warm = Inr w1"
    using assms(1) unfolding r by (cases ?warm) (simp_all add: and_then_simps)
  have c1: "readings w1 = readings w" "reads w1 = reads w"
    using warmup_clock [OF w1] by simp_all
  then have e1: "elapsed w1 = elapsed w" by (simp add: elapsed_def fun_eq_iff)
  show nz: "iterations b \<noteq> 0"
  proof
    assume "iterations b = 0"
    then have "measure_overhead ?b w1 = Inl DivisionByZero"
      by (simp add: measure_overhead_zero)
    then show False using assms(1) unfolding r w1 by (simp add: and_then_simps)
  qed
  let ?w2 = "w1\<lparr>reads := reads w1 + 2 * n\<rparr>"
  have m: "measure_overhead ?b w1 = Inr (overhead, ?w2)"
    using nz by (simp add: measure_overhead_eq overhead_def n_def e1 c1)
  have l: "for_loop n (timed_batch func overhead) (?b, ?w2) = Inr (b', w')"
    using assms(1) unfolding r w1 and_then_simps m by simp
  have e2: "elapsed (w1\<lparr>reads := k\<rparr>) = elapsed w" for k
    using e1 by (simp add: elapsed_def fun_eq_iff)
  show "b' = b\<lparr>samples := map (\<lambda>i. max 0 (elapsed w (reads w + 2 * n + 2 * i) - overhead)) [0..<n]\<rparr>"
    using timed_loop_Inr [OF l] by (simp add: e2 c1)
qed

text \<open>
  \<open>run\<close> returns whenever the callable never throws and \<open>iterations\<close> is not zero
  (with zero iterations \<open>measure_overhead\<close> divides by zero).
\<close>

lemma for_loop_total:
  assumes "\<And>s. \<exists>s'. body s = Inr s'"
  shows "\<exists>s'. for_loop n body s = Inr s'"
proof (induction n arbitrary: s)
  case 0
  then show ?case by simp
next
  case (Suc n)
  obtain s1 where "body s = Inr s1" using assms by blast
  then show ?case using Suc [of s1] by (simp add: and_then_simps)
qed

lemma run_returns:
  assumes "\<And>u. func u \<noteq> None" and "iterations b \<noteq> 0"
  shows "\<exists>b' w'. run func (b, w) = Inr (b', w')"
proof -
  have i: "\<exists>w'. invoke func w = Inr w'" for w :: "'a world"
    using assms(1) [of "user w"] by (auto simp: invoke_def)
  have batch: "\<exists>w'. for_loop k (invoke func) w = Inr w'" for k and w :: "'a world"
    by (rule for_loop_total) (rule i)
  have t: "\<exists>s'. timed_batch func ov s = Inr s'" for ov and s :: "benchmark \<times> 'a world"
  proof -
    obtain c v where s: "s = (c, v)" by (cases s)
    obtain v1 where "for_loop (unat (batch_size c)) (invoke func) (v\<lparr>reads := Suc (reads v)\<rparr>) = Inr v1"
      using batch by blast
    then show ?thesis
      by (simp add: s timed_batch_def now_def and_then_simps Let_def)
  qed
  obtain w1 where w1: "for_loop (unat (warmup b)) (for_loop (unat (batch_size b)) (invoke func)) w = Inr w1"
    using for_loop_total [where body = "for_loop (unat (batch_size b)) (invoke func)"] batch by blast
  obtain ov w2 where m: "measure_overhead (b\<lparr>samples := []\<rparr>) w1 = Inr (ov, w2)"
    using assms(2) by (simp add: measure_overhead_eq)
  obtain s' where "for_loop (unat (iterations b)) (timed_batch func ov) (b\<lparr>samples := []\<rparr>, w2) = Inr s'"
    using for_loop_total [where body = "timed_batch func ov"] t by blast
  then show ?thesis
    by (cases s') (simp add: run_def Let_def w1 m and_then_simps)
qed

lemma for_loop_numeral:
  "for_loop (numeral k) body s = and_then (body s) (for_loop (pred_numeral k) body)"
  by (simp add: numeral_eq_Suc)

lemma run_example:
  "run (\<lambda>u::nat. Some (Suc u))
         (\<lparr>iterations = 3, warmup = 2, batch_size = 2, samples = [99]\<rparr>,
          \<lparr>readings = (\<lambda>k. real (k * k)), reads = 0, user = 0\<rparr>)
   = Inr (\<lparr>iterations = 3, warmup = 2, batch_size = 2, samples = [8, 12, 16]\<rparr>,
          \<lparr>readings = (\<lambda>k. real (k * k)), reads = 12, user = 10\<rparr>)"
  by (simp add: run_def for_loop_numeral and_then_simps invoke_def measure_overhead_def
      overhead_step_def now_def fdiv_def to_double_def timed_batch_def Let_def)

lemma run_example_clamped:
  "run (\<lambda>u::unit. Some u)
         (\<lparr>iterations = 2, warmup = 1, batch_size = 1, samples = [-1]\<rparr>,
          \<lparr>readings = (\<lambda>k. [0, 4, 4, 4, 10, 11, 20, 29] ! k), reads = 0, user = ()\<rparr>)
   = Inr (\<lparr>iterations = 2, warmup = 1, batch_size = 1, samples = [0, 7]\<rparr>,
          \<lparr>readings = (\<lambda>k. [0, 4, 4, 4, 10, 11, 20, 29] ! k), reads = 8, user = ()\<rparr>)"
  by (simp add: run_def for_loop_numeral and_then_simps invoke_def measure_overhead_def
      overhead_step_def now_def fdiv_def to_double_def timed_batch_def Let_def)

text \<open>
  Claim C1. When \<open>run\<close> returns, the sample vector has exactly \<open>iterations\<close>
  elements, whatever it held before; \<open>iterations\<close> is unchanged, so running again
  (with any callable) gives that length again.
\<close>

theorem run_sample_count:
  assumes "run func (b, w) = Inr (b', w')"
  shows "length (samples b') = unat (iterations b)
       \<and> iterations b' = iterations b
       \<and> (\<forall>g b'' w''. run g (b', w') = Inr (b'', w'') \<longrightarrow>
            length (samples b'') = unat (iterations b))"
proof -
  have one: "length (samples c') = unat (iterations c) \<and> iterations c' = iterations c"
    if "run g (c, v) = Inr (c', v')" for g c c' and v v' :: "'a world"
    using run_Inr(2) [OF that] by simp
  show ?thesis
    using one [OF assms] one by metis
qed

theorem run_sample_count_witness:
  "run (\<lambda>u::nat. Some (Suc u))
         (\<lparr>iterations = 3, warmup = 2, batch_size = 2, samples = [99]\<rparr>,
          \<lparr>readings = (\<lambda>k. real (k * k)), reads = 0, user = 0\<rparr>)
   = Inr (\<lparr>iterations = 3, warmup = 2, batch_size = 2, samples = [8, 12, 16]\<rparr>,
          \<lparr>readings = (\<lambda>k. real (k * k)), reads = 12, user = 10\<rparr>)
   \<and> length [8, 12, 16 :: real] = unat (3 :: size_t)"
proof -
  note h = run_example
  from run_sample_count [OF h] h show ?thesis by simp
qed

text \<open>
  Claim C5. When \<open>run\<close> returns, the \<open>i\<close>-th sample is \<open>max 0 (raw - overhead)\<close>,
  where \<open>raw\<close> is the time between the two clock readings around the \<open>i\<close>-th batch
  and \<open>overhead\<close> is the mean time between the paired readings of
  \<open>measure_overhead\<close>; hence no sample is negative.
\<close>

theorem run_samples_clamped:
  assumes "run func (b, w) = Inr (b', w')"
  shows "\<exists>overhead.
           overhead = (\<Sum>i\<leftarrow>[0..<unat (iterations b)]. elapsed w (reads w + 2 * i))
                        / real (unat (iterations b))
         \<and> samples b' =
             map (\<lambda>i. max 0 (elapsed w (reads w + 2 * unat (iterations b) + 2 * i) - overhead))
               [0..<unat (iterations b)]
         \<and> (\<forall>x \<in> set (samples b'). 0 \<le> x)"
  using run_Inr(2) [OF assms] by auto

theorem run_samples_clamped_witness:
  "run (\<lambda>u::unit. Some u)
         (\<lparr>iterations = 2, warmup = 1, batch_size = 1, samples = [-1]\<rparr>,
          \<lparr>readings = (\<lambda>k. [0, 4, 4, 4, 10, 11, 20, 29] ! k), reads = 0, user = ()\<rparr>)
   = Inr (\<lparr>iterations = 2, warmup = 1, batch_size = 1, samples = [0, 7]\<rparr>,
          \<lparr>readings = (\<lambda>k. [0, 4, 4, 4, 10, 11, 20, 29] ! k), reads = 8, user = ()\<rparr>)
   \<and> (0::real) \<le> 0 \<and> (0::real) \<le> 7"
proof -
  note h = run_example_clamped
  from run_samples_clamped [OF h] h show ?thesis by simp
qed

section \<open>The report exporter\<close>

text \<open>A chain of insertions appends the operands, as items, to what the stream holds.\<close>

lemma written_foldl_ins:
  "foldl ins os xs = os\<lparr>written := written os @ map (as_item (precision os)) xs\<rparr>"
proof (induction xs arbitrary: os)
  case Nil
  then show ?case by simp
next
  case (Cons x xs)
  have "foldl ins os (x # xs) = foldl ins (ins os x) xs" by simp
  also have "\<dots> = os\<lparr>written := written os @ map (as_item (precision os)) (x # xs)\<rparr>"
    unfolding Cons.IH by (simp add: ins_def)
  finally show ?case .
qed

text \<open>
  On a non-empty vector \<open>filter_outliers\<close> computes the specification's cleaned set,
  which is not empty: the first quartile lies within the fences.
\<close>

lemma filter_outliers_spec:
  assumes "v \<noteq> []" "length v < 2 ^ 64"
  shows "filter_outliers v = Inr (spec_cleaned v)"
    and "spec_cleaned v \<noteq> []"
    and "length (spec_cleaned v) < 2 ^ 64"
    and "sorted (spec_cleaned v)"
proof -
  define q1 where "q1 = sort v ! spec_rank (length v) (1 / 4)"
  define q3 where "q3 = sort v ! spec_rank (length v) (3 / 4)"
  define P where "P = (\<lambda>x. q1 - 3 / 2 * (q3 - q1) \<le> x \<and> x \<le> q3 + 3 / 2 * (q3 - q1))"
  note f = filter_outliers_nonempty [OF assms, folded q1_def q3_def, folded P_def]
  have c: "spec_cleaned v = filter P (sort v)"
    by (simp add: spec_cleaned_def spec_percentile_def q1_def q3_def P_def Let_def)
  show "filter_outliers v = Inr (spec_cleaned v)"
    using f(1) c by simp
  have nonneg: "0 \<le> 3 / 2 * (q3 - q1)"
    using f(2) by simp
  then have "P q1"
    unfolding P_def using f(2) by linarith
  with f(3) have "q1 \<in> set (filter P (sort v))"
    by (simp only: set_filter mem_Collect_eq conj_commute)
  then show "spec_cleaned v \<noteq> []"
    unfolding c by (metis empty_iff empty_set)
  have "length (filter P (sort v)) \<le> length (sort v)"
    by (rule length_filter_le)
  then show "length (spec_cleaned v) < 2 ^ 64"
    unfolding c using assms(2) by (simp only: length_sort)
  show "sorted (spec_cleaned v)"
    unfolding c by (rule sorted_wrt_filter) (rule sorted_sort)
qed

lemma percentile_spec:
  "v \<noteq> [] \<Longrightarrow> length v < 2 ^ 64 \<Longrightarrow> 0 \<le> p \<Longrightarrow> p \<le> 1 \<Longrightarrow>
   percentile v p = Inr (spec_percentile v p)"
  unfolding spec_percentile_def by (rule percentile_nonempty)

text \<open>The values both report functions compute, in terms of the specification's Report.\<close>

lemma report_values:
  assumes "samples b \<noteq> []" "length (samples b) < 2 ^ 64"
  defines "c \<equiv> spec_cleaned (samples b)"
  defines "r \<equiv> spec_report b"
  shows "filter_outliers (samples b) = Inr c"
    and "vsize c = r_samples_used r"
    and "min_element c = Inr (r_min r)"
    and "max_element c = Inr (r_max r)"
    and "mean c = Inr (r_mean r)"
    and "stddev c (r_mean r) = Inr (r_stddev r)"
    and "percentile c 0.50 = Inr (r_p50 r)"
    and "percentile c 0.90 = Inr (r_p90 r)"
    and "percentile c 0.95 = Inr (r_p95 r)"
    and "percentile c 0.99 = Inr (r_p99 r)"
    and "batch_size b \<noteq> 0 \<Longrightarrow> fdiv (r_mean r) (batch_size b) = Inr (r_per_op_avg r)"
    and "r_iterations r = iterations b" and "r_batch_size r = batch_size b"
proof -
  note f = filter_outliers_spec [OF assms(1,2), folded c_def]
  have r: "r = \<lparr>r_iterations = iterations b,
          r_batch_size = batch_size b,
          r_samples_used = of_nat (length c),
          r_min = Min (set c),
          r_max = Max (set c),
          r_mean = sum_list c / real (length c),
          r_stddev = sqrt ((\<Sum>x\<leftarrow>c. (x - sum_list c / real (length c))\<^sup>2) / real (length c)),
          r_p50 = spec_percentile c 0.50,
          r_p90 = spec_percentile c 0.90,
          r_p95 = spec_percentile c 0.95,
          r_p99 = spec_percentile c 0.99,
          r_per_op_avg = (sum_list c / real (length c)) / real (unat (batch_size b))\<rparr>"
    unfolding r_def spec_report_def Let_def c_def ..
  have sel: "r_iterations r = iterations b" "r_batch_size r = batch_size b"
    "r_samples_used r = of_nat (length c)" "r_min r = Min (set c)" "r_max r = Max (set c)"
    "r_mean r = sum_list c / real (length c)"
    "r_stddev r = sqrt ((\<Sum>x\<leftarrow>c. (x - sum_list c / real (length c))\<^sup>2) / real (length c))"
    "r_p50 r = spec_percentile c 0.50" "r_p90 r = spec_percentile c 0.90"
    "r_p95 r = spec_percentile c 0.95" "r_p99 r = spec_percentile c 0.99"
    "r_per_op_avg r = (sum_list c / real (length c)) / real (unat (batch_size b))"
    unfolding r by (simp_all only: report.select_convs)
  show "filter_outliers (samples b) = Inr c" by (rule f(1))
  show "vsize c = r_samples_used r"
    unfolding sel vsize_def ..
  show "min_element c = Inr (r_min r)"
    unfolding sel by (rule min_element_nonempty [OF f(2)])
  show "max_element c = Inr (r_max r)"
    unfolding sel by (rule max_element_nonempty [OF f(2)])
  show "mean c = Inr (r_mean r)"
    unfolding sel by (rule mean_nonempty [OF f(2,3)])
  show "stddev c (r_mean r) = Inr (r_stddev r)"
    unfolding sel by (rule stddev_nonempty [OF f(2,3)])
  show "percentile c 0.50 = Inr (r_p50 r)"
    unfolding sel by (rule percentile_spec [OF f(2,3)]) simp_all
  show "percentile c 0.90 = Inr (r_p90 r)"
    unfolding sel by (rule percentile_spec [OF f(2,3)]) simp_all
  show "percentile c 0.95 = Inr (r_p95 r)"
    unfolding sel by (rule percentile_spec [OF f(2,3)]) simp_all
  show "percentile c 0.99 = Inr (r_p99 r)"
    unfolding sel by (rule percentile_spec [OF f(2,3)]) simp_all
  show "batch_size b \<noteq> 0 \<Longrightarrow> fdiv (r_mean r) (batch_size b) = Inr (r_per_op_avg r)"
    unfolding sel fdiv_def to_double_def by (simp only: if_False)
  show "r_iterations r = iterations b" "r_batch_size r = batch_size b"
    by (rule sel)+
qed



lemma export_csv_empty: "samples b = [] \<Longrightarrow> export_csv filename mode (b, fs) = Inr (b, fs)"
  by (simp add: export_csv_def)

lemma exists_path_resolvable:
  "access fs filename \<noteq> CannotResolve \<Longrightarrow>
   exists_path fs filename = Inr (files fs filename \<noteq> None)"
  by (simp add: exists_path_def)

lemma write_header_resolvable:
  assumes "mode = Truncate \<or> access fs filename \<noteq> CannotResolve"
  shows "(if mode = Append
          then and_then (exists_path fs filename) (\<lambda>found. Inr (if found then False else True))
          else Inr True)
         = Inr (\<not> (mode = Append \<and> files fs filename \<noteq> None))"
  using assms by (cases mode) (auto simp: exists_path_def and_then_simps)

lemma export_csv_unopenable:
  assumes "\<not> can_open fs filename" "length (samples b) < 2 ^ 64"
    and "mode = Truncate \<or> access fs filename \<noteq> CannotResolve"
  shows "export_csv filename mode (b, fs) = Inr (b, fs)"
proof (cases "samples b = []")
  case True
  then show ?thesis by (rule export_csv_empty)
next
  case False
  note v = report_values [OF False assms(2)]
  have o: "ofstream_open fs filename m = None" for m
    using assms(1) by (simp add: ofstream_open_def)
  show ?thesis
    by (simp only: export_csv_def prod.case False if_False Let_def v(1) v(3-6) and_then_simps o
        option.case write_header_resolvable [OF assms(3)])
qed

lemma export_csv_unresolvable:
  assumes "access fs filename = CannotResolve" "samples b \<noteq> []" "length (samples b) < 2 ^ 64"
  shows "export_csv filename Append (b, fs) = Inl FilesystemError"
proof -
  note v = report_values [OF assms(2,3)]
  have e: "exists_path fs filename = Inl FilesystemError"
    using assms(1) by (simp add: exists_path_def)
  show ?thesis
    by (simp only: export_csv_def prod.case assms(2) if_False Let_def v(1) v(3-6)
        and_then_simps e simp_thms if_True)
qed

lemma export_csv_report:
  assumes "samples b \<noteq> []" "length (samples b) < 2 ^ 64" "batch_size b \<noteq> 0"
    and "can_open fs filename"
  shows "export_csv filename mode (b, fs) =
           Inr (b, fs\<lparr>files := (files fs)(filename \<mapsto>
                  (case mode of
                     Truncate \<Rightarrow> header_items
                   | Append \<Rightarrow> (case files fs filename of None \<Rightarrow> header_items | Some old \<Rightarrow> old))
                  @ row_items b)\<rparr>)"
proof -
  note v = report_values [OF assms(1,2)]
  note d = v(11) [OF assms(3)]
  have r: "access fs filename \<noteq> CannotResolve"
    using assms(4) by (simp add: can_open_def)
  have e: "export_csv filename mode (b, fs) =
      (case ofstream_open fs filename (if mode = Append then app else trunc) of
         None \<Rightarrow> Inr (b, fs)
       | Some file \<Rightarrow>
           Inr (b, ofstream_close fs filename
             (foldl ins
               (if \<not> (mode = Append \<and> files fs filename \<noteq> None)
                then foldl ins (setprecision 10 file) csv_header else setprecision 10 file)
               (csv_row (spec_report b)))))"
    apply (simp only: export_csv_def prod.case assms(1) if_False Let_def v(1) v(3-10) d and_then_simps
        write_header_resolvable [OF disjI2 [OF r]])
    apply (simp only: csv_row_def v(2) v(12) v(13))
    done
  show ?thesis
    unfolding e using assms(4)
    by (cases mode; cases "files fs filename")
       (simp_all add: ofstream_open_def ofstream_close_def setprecision_def
          written_foldl_ins header_items_def row_items_def)
qed

text \<open>Neither report function changes the harness object.\<close>

lemma print_stats_empty: "samples b = [] \<Longrightarrow> print_stats (b, cout) = Inr (b, cout)"
  by (simp add: print_stats_def)




text \<open>The Report of the samples \<open>[1, 2, 3, 4, 5, 100]\<close> with batches of two.\<close>

lemma spec_cleaned_example: "spec_cleaned [1, 2, 3, 4, 5, 100] = [1, 2, 3, 4, 5]"
  by (simp add: spec_cleaned_def spec_percentile_def spec_rank_def)

lemma spec_report_example:
  "spec_report \<lparr>iterations = 6, warmup = 0, batch_size = 2, samples = [1, 2, 3, 4, 5, 100]\<rparr>
   = \<lparr>r_iterations = 6, r_batch_size = 2, r_samples_used = 5,
      r_min = 1, r_max = 5, r_mean = 3, r_stddev = sqrt 2,
      r_p50 = 3, r_p90 = 4, r_p95 = 4, r_p99 = 4, r_per_op_avg = 3 / 2\<rparr>"
  unfolding spec_report_def benchmark.simps spec_cleaned_example Let_def
    Min.set_eq_fold Max.set_eq_fold
  by (simp add: spec_percentile_def spec_rank_def)

lemma row_items_example:
  "row_items \<lparr>iterations = 6, warmup = 0, batch_size = 2, samples = [1, 2, 3, 4, 5, 100]\<rparr>
   = [Size 6, Text '','', Size 2, Text '','', Size 5, Text '','',
      Dbl 10 1, Text '','', Dbl 10 5, Text '','', Dbl 10 3, Text '','', Dbl 10 (sqrt 2), Text '','',
      Dbl 10 3, Text '','', Dbl 10 4, Text '','', Dbl 10 4, Text '','', Dbl 10 4, Text '','',
      Dbl 10 (3 / 2), Text ''\<newline>'']"
  unfolding row_items_def spec_report_example
  by (simp add: csv_row_def as_item_def)

lemma header_items_eq:
  "header_items =
     [Text ''Iterations,BatchSize,SamplesUsed,'',
      Text ''Min(ms),Max(ms),Mean(ms),Stddev(ms),'',
      Text ''p50(ms),p90(ms),p95(ms),p99(ms),PerOpAvg(ms)\<newline>'']"
  by (simp add: header_items_def csv_header_def as_item_def)

lemma header_not_in_row: "set header_items \<inter> set (row_items b) = {}"
  by (simp add: header_items_def row_items_def csv_header_def csv_row_def as_item_def)

section \<open>The claims about the reports\<close>

text \<open>
  Claim C7. For harnesses with samples and a non-zero batch size, and a path that can
  be opened: \<open>export_csv\<close> in Truncate mode leaves the file holding the header and
  one data row, whatever it held, so a second Truncate export leaves the header and the
  row of the second export only. In Append mode on a path that does not exist it
  leaves the header and one row, and a second Append export adds its row and no
  header; on a path that exists it adds its row to the old contents and no header. No
  item of the header occurs in a data row.
\<close>

theorem export_csv_modes:
  assumes "samples b \<noteq> []" and "length (samples b) < 2 ^ 64" and "batch_size b \<noteq> 0"
    and "samples b' \<noteq> []" and "length (samples b') < 2 ^ 64" and "batch_size b' \<noteq> 0"
    and "can_open fs p"
  shows
    "export_csv p Truncate (b, fs)
       = Inr (b, fs\<lparr>files := (files fs)(p \<mapsto> header_items @ row_items b)\<rparr>)
     \<and> export_csv p Truncate (b', fs\<lparr>files := (files fs)(p \<mapsto> header_items @ row_items b)\<rparr>)
       = Inr (b', fs\<lparr>files := (files fs)(p \<mapsto> header_items @ row_items b')\<rparr>)
     \<and> (files fs p = None \<longrightarrow>
          export_csv p Append (b, fs)
            = Inr (b, fs\<lparr>files := (files fs)(p \<mapsto> header_items @ row_items b)\<rparr>)
        \<and> export_csv p Append (b', fs\<lparr>files := (files fs)(p \<mapsto> header_items @ row_items b)\<rparr>)
            = Inr (b', fs\<lparr>files := (files fs)(p \<mapsto> header_items @ row_items b @ row_items b')\<rparr>))
     \<and> (\<forall>old. files fs p = Some old \<longrightarrow>
          export_csv p Append (b, fs)
            = Inr (b, fs\<lparr>files := (files fs)(p \<mapsto> old @ row_items b)\<rparr>))
     \<and> set header_items \<inter> set (row_items b) = {}
     \<and> set header_items \<inter> set (row_items b') = {}"
proof -
  let ?fs1 = "fs\<lparr>files := (files fs)(p \<mapsto> header_items @ row_items b)\<rparr>"
  have o1: "can_open ?fs1 p" using assms(7) by (simp add: can_open_def)
  note first = export_csv_report [OF assms(1,2,3,7)]
  note second = export_csv_report [OF assms(4,5,6) o1]
  have t1: "export_csv p Truncate (b, fs) = Inr (b, ?fs1)"
    using first [of Truncate] by simp
  have t2: "export_csv p Truncate (b', ?fs1)
      = Inr (b', fs\<lparr>files := (files fs)(p \<mapsto> header_items @ row_items b')\<rparr>)"
    using second [of Truncate] by simp
  have a1: "export_csv p Append (b, fs) = Inr (b, ?fs1)" if "files fs p = None"
    using first [of Append] that by simp
  have a2: "export_csv p Append (b', ?fs1)
      = Inr (b', fs\<lparr>files := (files fs)(p \<mapsto> header_items @ row_items b @ row_items b')\<rparr>)"
    using second [of Append] by simp
  have a3: "export_csv p Append (b, fs) = Inr (b, fs\<lparr>files := (files fs)(p \<mapsto> old @ row_items b)\<rparr>)"
    if "files fs p = Some old" for old
    using first [of Append] that by simp
  show ?thesis
    using t1 t2 a1 a2 a3 header_not_in_row by blast
qed

theorem export_csv_modes_witness:
  "samples \<lparr>iterations = 6, warmup = 0, batch_size = 2, samples = [1, 2, 3, 4, 5, 100]\<rparr> \<noteq> []
   \<and> length (samples \<lparr>iterations = 6, warmup = 0, batch_size = 2, samples = [1, 2, 3, 4, 5, 100]\<rparr>)
       < 2 ^ 64
   \<and> batch_size \<lparr>iterations = 6, warmup = 0, batch_size = 2, samples = [1, 2, 3, 4, 5, 100]\<rparr> \<noteq> 0
   \<and> can_open \<lparr>files = Map.empty, access = (\<lambda>f. CanOpen)\<rparr> ''out.csv''
   \<and> files \<lparr>files = Map.empty, access = (\<lambda>f. CanOpen)\<rparr> ''out.csv'' = None
   \<and> export_csv ''out.csv'' Truncate
         (\<lparr>iterations = 6, warmup = 0, batch_size = 2, samples = [1, 2, 3, 4, 5, 100]\<rparr>,
          \<lparr>files = [''out.csv'' \<mapsto> header_items @ row_items
              \<lparr>iterations = 6, warmup = 0, batch_size = 2, samples = [1, 2, 3, 4, 5, 100]\<rparr>],
           access = (\<lambda>f. CanOpen)\<rparr>)
       = Inr (\<lparr>iterations = 6, warmup = 0, batch_size = 2, samples = [1, 2, 3, 4, 5, 100]\<rparr>,
              \<lparr>files = [''out.csv'' \<mapsto> header_items @ row_items
                  \<lparr>iterations = 6, warmup = 0, batch_size = 2, samples = [1, 2, 3, 4, 5, 100]\<rparr>],
               access = (\<lambda>f. CanOpen)\<rparr>)
   \<and> export_csv ''out.csv'' Append
         (\<lparr>iterations = 6, warmup = 0, batch_size = 2, samples = [1, 2, 3, 4, 5, 100]\<rparr>,
          \<lparr>files = Map.empty, access = (\<lambda>f. CanOpen)\<rparr>)
       = Inr (\<lparr>iterations = 6, warmup = 0, batch_size = 2, samples = [1, 2, 3, 4, 5, 100]\<rparr>,
              \<lparr>files = [''out.csv'' \<mapsto> header_items @ row_items
                  \<lparr>iterations = 6, warmup = 0, batch_size = 2, samples = [1, 2, 3, 4, 5, 100]\<rparr>],
               access = (\<lambda>f. CanOpen)\<rparr>)
   \<and> export_csv ''out.csv'' Append
         (\<lparr>iterations = 6, warmup = 0, batch_size = 2, samples = [1, 2, 3, 4, 5, 100]\<rparr>,
          \<lparr>files = [''out.csv'' \<mapsto> header_items @ row_items
              \<lparr>iterations = 6, warmup = 0, batch_size = 2, samples = [1, 2, 3, 4, 5, 100]\<rparr>],
           access = (\<lambda>f. CanOpen)\<rparr>)
       = Inr (\<lparr>iterations = 6, warmup = 0, batch_size = 2, samples = [1, 2, 3, 4, 5, 100]\<rparr>,
              \<lparr>files = [''out.csv'' \<mapsto>
                 [Text ''Iterations,BatchSize,SamplesUsed,'',
                  Text ''Min(ms),Max(ms),Mean(ms),Stddev(ms),'',
                  Text ''p50(ms),p90(ms),p95(ms),p99(ms),PerOpAvg(ms)\<newline>'',
                  Size 6, Text '','', Size 2, Text '','', Size 5, Text '','',
                  Dbl 10 1, Text '','', Dbl 10 5, Text '','', Dbl 10 3, Text '','',
                  Dbl 10 (sqrt 2), Text '','',
                  Dbl 10 3, Text '','', Dbl 10 4, Text '','', Dbl 10 4, Text '','', Dbl 10 4, Text '','',
                  Dbl 10 (3 / 2), Text ''\<newline>'',
                  Size 6, Text '','', Size 2, Text '','', Size 5, Text '','',
                  Dbl 10 1, Text '','', Dbl 10 5, Text '','', Dbl 10 3, Text '','',
                  Dbl 10 (sqrt 2), Text '','',
                  Dbl 10 3, Text '','', Dbl 10 4, Text '','', Dbl 10 4, Text '','', Dbl 10 4, Text '','',
                  Dbl 10 (3 / 2), Text ''\<newline>'']],
               access = (\<lambda>f. CanOpen)\<rparr>)"
proof -
  let ?b = "\<lparr>iterations = 6, warmup = 0, batch_size = 2, samples = [1, 2, 3, 4, 5, 100]\<rparr>"
  let ?fs = "\<lparr>files = Map.empty, access = (\<lambda>f. CanOpen)\<rparr>"
  have h: "samples ?b \<noteq> []" "length (samples ?b) < 2 ^ 64" "batch_size ?b \<noteq> 0"
    "can_open ?fs ''out.csv''"
    by (simp_all add: can_open_def)
  have n: "files ?fs ''out.csv'' = None" by simp
  note t = export_csv_modes [OF h(1,2,3) h(1,2,3) h(4)]
  show ?thesis
    using t h n by (simp add: row_items_example header_items_eq)
qed



text \<open>
  Claim C8 says that \<open>export_csv\<close> returns silently, raising no error, when the report
  file cannot be opened. For a path that cannot be resolved, and so cannot be opened,
  this is what the export in Truncate mode does: it returns and leaves the file system
  as it is. The export in Append mode first asks \<open>std::filesystem::exists\<close>, which
  throws \<open>filesystem_error\<close> there, and the exception leaves \<open>export_csv\<close>.
\<close>

theorem export_csv_append_unresolvable:
  "export_csv ''locked/report.csv'' Append
     (\<lparr>iterations = 3, warmup = 0, batch_size = 1, samples = [1, 2, 3]\<rparr>,
      \<lparr>files = Map.empty, access = (\<lambda>f. CannotResolve)\<rparr>)
     = Inl FilesystemError
   \<and> export_csv ''locked/report.csv'' Truncate
     (\<lparr>iterations = 3, warmup = 0, batch_size = 1, samples = [1, 2, 3]\<rparr>,
      \<lparr>files = Map.empty, access = (\<lambda>f. CannotResolve)\<rparr>)
     = Inr (\<lparr>iterations = 3, warmup = 0, batch_size = 1, samples = [1, 2, 3]\<rparr>,
            \<lparr>files = Map.empty, access = (\<lambda>f. CannotResolve)\<rparr>)"
proof
  show "export_csv ''locked/report.csv'' Append
     (\<lparr>iterations = 3, warmup = 0, batch_size = 1, samples = [1, 2, 3]\<rparr>,
      \<lparr>files = Map.empty, access = (\<lambda>f. CannotResolve)\<rparr>)
     = Inl FilesystemError"
    by (rule export_csv_unresolvable) simp_all
  show "export_csv ''locked/report.csv'' Truncate
     (\<lparr>iterations = 3, warmup = 0, batch_size = 1, samples = [1, 2, 3]\<rparr>,
      \<lparr>files = Map.empty, access = (\<lambda>f. CannotResolve)\<rparr>)
     = Inr (\<lparr>iterations = 3, warmup = 0, batch_size = 1, samples = [1, 2, 3]\<rparr>,
            \<lparr>files = Map.empty, access = (\<lambda>f. CannotResolve)\<rparr>)"
    by (rule export_csv_unopenable) (simp_all add: can_open_def)
qed

section \<open>Rounding to the nearest double\<close>

lemma round_even_of_int: "round_even (of_int k) = k"
  by (simp add: round_even_def)

lemma round_even_bounds: "real_of_int (round_even y) \<le> y + 1 / 2" "y - 1 / 2 \<le> real_of_int (round_even y)"
  unfolding round_even_def Let_def by (auto; linarith)+

lemma round_even_mono:
  assumes "x \<le> y"
  shows "round_even x \<le> round_even y"
proof (cases "\<lfloor>x\<rfloor> = \<lfloor>y\<rfloor>")
  case True
  then show ?thesis
    using assms unfolding round_even_def Let_def by auto
next
  case False
  then have "\<lfloor>x\<rfloor> + 1 \<le> \<lfloor>y\<rfloor>"
    using floor_mono [OF assms] by linarith
  moreover have "round_even x \<le> \<lfloor>x\<rfloor> + 1"
    unfolding round_even_def Let_def by auto
  moreover have "\<lfloor>y\<rfloor> \<le> round_even y"
    unfolding round_even_def Let_def by auto
  ultimately show ?thesis by linarith
qed

text \<open>The exponent brackets the magnitude between two consecutive powers of two.\<close>

lemma exponent_bounds:
  assumes "x \<noteq> 0"
  shows "2 powi (exponent x) \<le> \<bar>x\<bar>" and "\<bar>x\<bar> < 2 powi (exponent x + 1)"
proof -
  define a where "a = \<bar>x\<bar>"
  have a: "0 < a" using assms by (simp add: a_def)
  have "2 powi (exponent x) \<le> a \<and> a < 2 powi (exponent x + 1)"
  proof (cases "1 \<le> a")
    case True
    then have f: "0 < \<lfloor>a\<rfloor>" by linarith
    define k where "k = nat (bitlen \<lfloor>a\<rfloor> - 1)"
    have kb: "bitlen \<lfloor>a\<rfloor> = int k + 1"
      using bitlen_bounds [OF f] f unfolding k_def
      by (smt (verit) bitlen_nonneg bitlen_eq_zero_iff int_nat_eq)
    have b: "2 ^ k \<le> \<lfloor>a\<rfloor>" "\<lfloor>a\<rfloor> < 2 ^ (k + 1)"
      using bitlen_bounds [OF f] unfolding k_def [symmetric] kb by (simp_all add: nat_add_distrib)
    have e: "exponent x = int k"
      using True by (simp add: exponent_def a_def [symmetric] kb)
    have "(2::real) ^ k \<le> of_int \<lfloor>a\<rfloor>"
      using b(1) by (metis of_int_le_iff of_int_numeral of_int_power)
    then have 1: "2 ^ k \<le> a" by linarith
    have "\<lfloor>a\<rfloor> + 1 \<le> 2 ^ (k + 1)" using b(2) by linarith
    then have "real_of_int (\<lfloor>a\<rfloor> + 1) \<le> 2 ^ (k + 1)"
      by (metis of_int_le_iff of_int_numeral of_int_power)
    then have 2: "a < 2 ^ (k + 1)" by linarith
    show ?thesis
      using 1 2 unfolding e by (simp add: power_int_add)
  next
    case False
    define y where "y = 1 / a"
    have y: "1 < y" using False a by (simp add: y_def)
    define n where "n = \<lceil>y\<rceil> - 1"
    have n: "0 < n" "real_of_int n < y" "y \<le> real_of_int n + 1"
      using y unfolding n_def by (linarith+)
    define k where "k = nat (bitlen n - 1)"
    have kb: "bitlen n = int k + 1"
      using bitlen_bounds [OF n(1)] n(1) unfolding k_def
      by (smt (verit) bitlen_nonneg bitlen_eq_zero_iff int_nat_eq)
    have b: "2 ^ k \<le> n" "n < 2 ^ (k + 1)"
      using bitlen_bounds [OF n(1)] unfolding k_def [symmetric] kb by (simp_all add: nat_add_distrib)
    have e: "exponent x = - (int k + 1)"
      using False by (simp add: exponent_def a_def [symmetric] y_def [symmetric] n_def [symmetric] kb)
    have "(2::real) ^ k \<le> of_int n"
      using b(1) by (metis of_int_le_iff of_int_numeral of_int_power)
    then have 1: "2 ^ k < y" using n(2) by linarith
    have "n + 1 \<le> 2 ^ (k + 1)" using b(2) by linarith
    then have "real_of_int (n + 1) \<le> 2 ^ (k + 1)"
      by (metis of_int_le_iff of_int_numeral of_int_power)
    then have 2: "y \<le> 2 ^ (k + 1)" using n(3) by simp
    have ay: "a = 1 / y" using a by (simp add: y_def)
    have lo: "1 / 2 ^ (k + 1) \<le> a"
      unfolding ay using 2 y by (simp add: frac_le)
    have hi: "a < 1 / 2 ^ k"
      unfolding ay using 1 by (simp add: frac_less2)
    have p1: "(2::real) powi (- (int k + 1)) = 1 / 2 ^ (k + 1)"
      by (simp add: power_int_def nat_add_distrib power_inverse [symmetric] inverse_eq_divide power_one_over)
    have p2: "(2::real) powi (- (int k + 1) + 1) = 1 / 2 ^ k"
      by (simp add: power_int_def power_inverse [symmetric] inverse_eq_divide power_one_over)
    show ?thesis
      unfolding e p1 p2 using lo hi by simp
  qed
  then show "2 powi (exponent x) \<le> \<bar>x\<bar>" and "\<bar>x\<bar> < 2 powi (exponent x + 1)"
    by (simp_all add: a_def)
qed

lemma ulp_pos: "0 < ulp x"
  by (simp add: ulp_def)

lemma ulp_alt: "ulp x * 2 ^ 52 = 2 powi (max (exponent x) (- 1022))"
proof -
  have "(2::real) powi (max (exponent x) (- 1022) - 52 + 52) = 2 powi (max (exponent x) (- 1022) - 52) * 2 powi 52"
    by (rule power_int_add) simp
  then show ?thesis by (simp add: ulp_def)
qed

lemma scaled_less:
  assumes "x \<noteq> 0"
  shows "\<bar>x\<bar> / ulp x < 2 ^ 53"
proof -
  have "\<bar>x\<bar> < 2 powi (exponent x + 1)" by (rule exponent_bounds(2) [OF assms])
  also have "\<dots> \<le> 2 powi (max (exponent x) (- 1022) + 1)"
    by (rule power_int_increasing) simp_all
  also have "\<dots> = 2 powi (max (exponent x) (- 1022)) * 2"
    by (simp add: power_int_add)
  also have "\<dots> = ulp x * 2 ^ 53"
    by (simp add: ulp_alt [symmetric])
  finally show ?thesis using ulp_pos [of x] by (simp add: field_simps)
qed

lemma scaled_ge:
  assumes "x \<noteq> 0" "- 1022 \<le> exponent x"
  shows "2 ^ 52 \<le> \<bar>x\<bar> / ulp x"
proof -
  have m: "max (exponent x) (- 1022) = exponent x" using assms(2) by simp
  have "ulp x * 2 ^ 52 = 2 powi (exponent x)"
    unfolding ulp_alt m ..
  also have "\<dots> \<le> \<bar>x\<bar>" by (rule exponent_bounds(1) [OF assms(1)])
  finally have "ulp x * 2 ^ 52 \<le> \<bar>x\<bar>" .
  then have "2 ^ 52 * ulp x \<le> \<bar>x\<bar>" by (simp only: mult.commute)
  then show ?thesis using ulp_pos [of x] by (simp only: pos_le_divide_eq)
qed

lemma exponent_mono:
  assumes "x \<noteq> 0" "\<bar>x\<bar> \<le> \<bar>y\<bar>"
  shows "exponent x \<le> exponent y"
proof -
  have y: "y \<noteq> 0" using assms by auto
  have "2 powi (exponent x) \<le> \<bar>x\<bar>" by (rule exponent_bounds(1) [OF assms(1)])
  also have "\<dots> \<le> \<bar>y\<bar>" by (rule assms(2))
  also have "\<dots> < 2 powi (exponent y + 1)" by (rule exponent_bounds(2) [OF y])
  finally have lt: "(2::real) powi (exponent x) < 2 powi (exponent y + 1)" .
  have "exponent x < exponent y + 1"
  proof (rule ccontr)
    assume "\<not> exponent x < exponent y + 1"
    then have "exponent y + 1 \<le> exponent x" by simp
    then have "(2::real) powi (exponent y + 1) \<le> 2 powi (exponent x)"
      by (rule power_int_increasing) simp
    with lt show False by simp
  qed
  then show ?thesis by simp
qed

lemma round_real_nonneg: "0 \<le> x \<Longrightarrow> 0 \<le> round_real x"
proof -
  assume x: "0 \<le> x"
  have "0 \<le> x / ulp x" using x ulp_pos [of x] by simp
  from round_even_mono [OF this] have "0 \<le> round_even (x / ulp x)"
    by (simp add: round_even_def)
  then show ?thesis using ulp_pos [of x] by (simp add: round_real_def)
qed

lemma round_real_nonpos: "x \<le> 0 \<Longrightarrow> round_real x \<le> 0"
proof -
  assume x: "x \<le> 0"
  have "x / ulp x \<le> 0" using x ulp_pos [of x] by (simp add: divide_le_0_iff)
  from round_even_mono [OF this] have "round_even (x / ulp x) \<le> 0"
    by (simp add: round_even_def)
  then show ?thesis using ulp_pos [of x] by (simp add: round_real_def mult_le_0_iff)
qed

text \<open>Within one binade rounding is monotone; across binades a power of two lies between.\<close>

lemma round_real_upper:
  assumes "0 < x"
  shows "round_real x \<le> 2 powi (max (exponent x) (- 1022) + 1)"
proof -
  have "x / ulp x \<le> 2 ^ 53" using scaled_less [of x] assms by simp
  then have "x / ulp x \<le> real_of_int (2 ^ 53)" by simp
  from round_even_mono [OF this] have "round_even (x / ulp x) \<le> 2 ^ 53"
    unfolding round_even_of_int .
  then have "real_of_int (round_even (x / ulp x)) \<le> 2 ^ 53"
    by (metis of_int_le_iff of_int_numeral of_int_power)
  then have "round_real x \<le> 2 ^ 53 * ulp x"
    using assms ulp_pos [of x] by (simp add: round_real_def)
  also have "\<dots> = 2 powi (max (exponent x) (- 1022)) * 2"
    using ulp_alt [of x] by simp
  also have "\<dots> = 2 powi (max (exponent x) (- 1022) + 1)"
    by (simp add: power_int_add)
  finally show ?thesis .
qed

lemma round_real_lower:
  assumes "0 < x" "- 1022 \<le> exponent x"
  shows "2 powi (exponent x) \<le> round_real x"
proof -
  have "2 ^ 52 \<le> x / ulp x" using scaled_ge [of x] assms by simp
  then have "real_of_int (2 ^ 52) \<le> x / ulp x" by simp
  from round_even_mono [OF this] have "2 ^ 52 \<le> round_even (x / ulp x)"
    unfolding round_even_of_int .
  then have "2 ^ 52 \<le> real_of_int (round_even (x / ulp x))"
    by (metis of_int_le_iff of_int_numeral of_int_power)
  then have "2 ^ 52 * ulp x \<le> round_real x"
    using assms ulp_pos [of x] by (simp add: round_real_def)
  moreover have "max (exponent x) (- 1022) = exponent x" using assms(2) by simp
  then have "ulp x * 2 ^ 52 = 2 powi (exponent x)"
    unfolding ulp_alt by simp
  then have "2 ^ 52 * ulp x = 2 powi (exponent x)" by (simp only: mult.commute)
  ultimately show ?thesis by (simp only:)
qed

lemma round_real_mono_pos:
  assumes "0 < x" "x \<le> y"
  shows "round_real x \<le> round_real y"
proof -
  have y: "0 < y" using assms by simp
  have e: "exponent x \<le> exponent y"
    by (rule exponent_mono) (use assms in simp_all)
  show ?thesis
  proof (cases "max (exponent x) (- 1022) = max (exponent y) (- 1022)")
    case True
    then have u: "ulp x = ulp y" by (simp add: ulp_def)
    have "x / ulp y \<le> y / ulp y" using assms(2) ulp_pos [of y] by (simp add: divide_right_mono)
    from round_even_mono [OF this] show ?thesis
      using assms(1) y ulp_pos [of y] by (simp add: round_real_def u)
  next
    case False
    then have l: "max (exponent x) (- 1022) < exponent y" "- 1022 \<le> exponent y"
      using e by (auto simp: max_def split: if_splits)
    have "round_real x \<le> 2 powi (max (exponent x) (- 1022) + 1)"
      by (rule round_real_upper [OF assms(1)])
    also have "\<dots> \<le> 2 powi (exponent y)"
    proof (rule power_int_increasing)
      show "max (exponent x) (- 1022) + 1 \<le> exponent y" using l(1) by linarith
    qed simp
    also have "\<dots> \<le> round_real y"
      by (rule round_real_lower [OF y l(2)])
    finally show ?thesis .
  qed
qed

lemma round_even_minus: "round_even (- y) = - round_even y"
proof (cases "y = of_int \<lfloor>y\<rfloor>")
  case True
  then have "round_even (- y) = round_even (of_int (- \<lfloor>y\<rfloor>))"
    by (metis of_int_minus)
  also have "\<dots> = - \<lfloor>y\<rfloor>" by (rule round_even_of_int)
  also have "\<dots> = - round_even y"
    using round_even_of_int [of "\<lfloor>y\<rfloor>"] True by simp
  finally show ?thesis .
next
  case False
  then have c: "\<lceil>y\<rceil> = \<lfloor>y\<rfloor> + 1" by (simp add: ceiling_altdef)
  have f: "\<lfloor>- y\<rfloor> = - \<lfloor>y\<rfloor> - 1"
    using c by (simp add: floor_minus)
  have r: "y - of_int \<lfloor>y\<rfloor> \<noteq> 0" using False by simp
  show ?thesis
    unfolding round_even_def Let_def f using r by (auto; linarith?)
qed

lemma round_real_minus: "round_real (- x) = - round_real x"
  by (simp add: round_real_def ulp_def exponent_def round_even_minus)

text \<open>Rounding is monotone.\<close>

lemma round_real_mono:
  assumes "x \<le> y"
  shows "round_real x \<le> round_real y"
proof -
  consider "0 < x" | "x \<le> 0" "0 \<le> y" | "y < 0" by linarith
  then show ?thesis
  proof cases
    case 1
    then show ?thesis by (rule round_real_mono_pos [OF _ assms])
  next
    case 2
    then show ?thesis
      using round_real_nonpos [of x] round_real_nonneg [of y] by linarith
  next
    case 3
    then have "0 < - y" "- y \<le> - x" using assms by simp_all
    from round_real_mono_pos [OF this] show ?thesis
      by (simp add: round_real_minus)
  qed
qed

text \<open>Rewrite rules that evaluate \<open>fl\<close> on a numeral.\<close>

lemma bitlen_numeral: "bitlen (numeral n) = bitlen (numeral n div 2) + 1"
  by (subst compute_bitlen) simp

lemma bitlen_one: "bitlen 1 = 1"
  by (subst compute_bitlen) simp

lemmas eval_fl = fl_def huge_def round_real_def ulp_def exponent_def bitlen_numeral bitlen_one round_even_def Let_def

text \<open>
  The numbers \<open>m * 2^j\<close> with \<open>|m| < 2^53\<close> and \<open>j \<ge> -1074\<close> are left as they are: these
  are the doubles. Among them are the integers below \<open>2^53\<close> in magnitude.
\<close>

lemma round_real_dyadic:
  assumes "\<bar>m\<bar> < 2 ^ 53" "- 1074 \<le> j"
  shows "round_real (of_int m * 2 powi j) = of_int m * 2 powi j"
proof (cases "m = 0")
  case True
  then show ?thesis by (simp add: round_real_def)
next
  case False
  define x :: real where "x = of_int m * 2 powi j"
  have x0: "x \<noteq> 0" using False by (simp add: x_def)
  have "real_of_int \<bar>m\<bar> < 2 ^ 53" using assms(1)
    by (metis of_int_less_iff of_int_numeral of_int_power)
  then have "real_of_int \<bar>m\<bar> * 2 powi j < 2 ^ 53 * 2 powi j"
    by (rule mult_strict_right_mono) simp
  then have ax: "\<bar>x\<bar> < 2 powi (53 + j)"
    by (simp add: x_def abs_mult power_int_add)
  have e: "exponent x \<le> 52 + j"
  proof (rule ccontr)
    assume "\<not> exponent x \<le> 52 + j"
    then have "53 + j \<le> exponent x" by simp
    then have "(2::real) powi (53 + j) \<le> 2 powi (exponent x)"
      by (rule power_int_increasing) simp
    with exponent_bounds(1) [OF x0] ax show False by simp
  qed
  define d where "d = nat (j - (max (exponent x) (- 1022) - 52))"
  have dj: "int d = j - (max (exponent x) (- 1022) - 52)"
    using e assms(2) by (simp add: d_def max_def)
  have "(2::real) powi j = 2 powi (int d + (max (exponent x) (- 1022) - 52))"
    by (simp only: dj) simp
  also have "\<dots> = 2 powi (int d) * 2 powi (max (exponent x) (- 1022) - 52)"
    by (rule power_int_add) simp
  also have "\<dots> = 2 ^ d * ulp x"
    by (simp add: ulp_def)
  finally have p: "(2::real) powi j = 2 ^ d * ulp x" .
  define u where "u = ulp x"
  have u: "0 < u" unfolding u_def by (rule ulp_pos)
  have xu: "x = of_int (m * 2 ^ d) * u"
    using p by (simp add: x_def u_def)
  then have "x / u = of_int (m * 2 ^ d)"
    using u by simp
  then have "round_even (x / u) = m * 2 ^ d"
    by (simp only: round_even_of_int)
  then have "round_real x = of_int (m * 2 ^ d) * u"
    using x0 by (simp only: round_real_def if_False u_def)
  then have "round_real x = x" by (simp only: xu [symmetric])
  then show ?thesis by (simp only: x_def)
qed

lemma round_real_int: "\<bar>k\<bar> < 2 ^ 53 \<Longrightarrow> round_real (of_int k) = of_int k"
  using round_real_dyadic [of k 0] by simp

lemma round_real_nat: "n < 2 ^ 53 \<Longrightarrow> round_real (real n) = real n"
  using round_real_int [of "int n"] by simp

text \<open>
  A rounded number is a double, and it is the nearest one: it is left as it is by a
  second rounding, and it lies within half a unit in the last place of the number
  rounded.
\<close>

lemma round_even_scaled:
  assumes "x \<noteq> 0"
  shows "\<bar>round_even (x / ulp x)\<bar> \<le> 2 ^ 53"
proof -
  have "\<bar>x / ulp x\<bar> = \<bar>x\<bar> / ulp x"
    using ulp_pos [of x] by (simp only: abs_div_pos)
  then have "\<bar>x / ulp x\<bar> < 2 ^ 53"
    using scaled_less [OF assms] by (simp only:)
  then have "x / ulp x \<le> 2 ^ 53" "- (2 ^ 53) \<le> x / ulp x"
    by linarith+
  then have a: "x / ulp x \<le> real_of_int (2 ^ 53)" "real_of_int (- (2 ^ 53)) \<le> x / ulp x"
    by simp_all
  have "round_even (x / ulp x) \<le> round_even (of_int (2 ^ 53))"
    by (rule round_even_mono) (rule a(1))
  moreover have "round_even (of_int (- (2 ^ 53))) \<le> round_even (x / ulp x)"
    by (rule round_even_mono) (rule a(2))
  ultimately show ?thesis by (simp only: round_even_of_int)
qed

lemma round_real_idem: "round_real (round_real x) = round_real x"
proof (cases "x = 0")
  case True
  then show ?thesis by (simp add: round_real_def)
next
  case False
  define k where "k = round_even (x / ulp x)"
  define j where "j = max (exponent x) (- 1022) - 52"
  have r: "round_real x = of_int k * 2 powi j"
    using False by (simp add: round_real_def ulp_def k_def j_def)
  have j: "- 1074 \<le> j" by (simp add: j_def)
  have k: "\<bar>k\<bar> \<le> 2 ^ 53" unfolding k_def by (rule round_even_scaled [OF False])
  show ?thesis
  proof (cases "\<bar>k\<bar> < 2 ^ 53")
    case True
    then show ?thesis unfolding r using j by (rule round_real_dyadic)
  next
    case False
    then have "\<bar>k\<bar> = 2 ^ 53" using k by simp
    then have "k = 2 ^ 53 \<or> k = - (2 ^ 53)" by (simp add: abs_if split: if_splits)
    then have "k = 2 * (k div 2)" "\<bar>k div 2\<bar> < 2 ^ 53" by auto
    then have e: "real_of_int k * 2 powi j = of_int (k div 2) * 2 powi (j + 1)"
      by (simp add: power_int_add)
    have "- 1074 \<le> j + 1" using j by simp
    with \<open>\<bar>k div 2\<bar> < 2 ^ 53\<close>
    have "round_real (of_int (k div 2) * 2 powi (j + 1)) = of_int (k div 2) * 2 powi (j + 1)"
      by (rule round_real_dyadic)
    then show ?thesis by (simp only: r e)
  qed
qed

lemma round_real_error: "\<bar>round_real x - x\<bar> \<le> ulp x / 2"
proof (cases "x = 0")
  case True
  then show ?thesis using ulp_pos [of x] by (simp add: round_real_def)
next
  case False
  define k where "k = round_even (x / ulp x)"
  have "real_of_int k \<le> x / ulp x + 1 / 2" "x / ulp x - 1 / 2 \<le> real_of_int k"
    unfolding k_def by (rule round_even_bounds)+
  then have "\<bar>real_of_int k - x / ulp x\<bar> \<le> 1 / 2" by linarith
  then have "\<bar>real_of_int k - x / ulp x\<bar> * ulp x \<le> 1 / 2 * ulp x"
    by (rule mult_right_mono) (use ulp_pos [of x] in simp)
  moreover have "\<bar>real_of_int k - x / ulp x\<bar> * ulp x = \<bar>real_of_int k * ulp x - x\<bar>"
    using ulp_pos [of x] by (simp add: abs_mult_pos left_diff_distrib)
  ultimately show ?thesis
    using False by (simp add: round_real_def k_def)
qed

lemma huge_pos: "0 < huge"
  by (simp add: huge_def)

lemma huge_gt: "2 ^ 53 < huge"
  unfolding huge_def by (rule power_strict_increasing) simp_all

lemma fl_finite: "\<bar>round_real x\<bar> < huge \<Longrightarrow> fl x = Finite (round_real x)"
  by (auto simp: fl_def Let_def)

lemma fl_idem: "fl x = Finite y \<Longrightarrow> fl y = Finite y"
  by (auto simp: fl_def Let_def round_real_idem split: if_splits)

lemma fl_is_finite_double: "fl x = Finite y \<Longrightarrow> is_finite_double (Finite y)"
  by (simp add: is_finite_double_def fl_idem)

lemma round_real_between:
  assumes "0 \<le> x" "x \<le> real n" "n < 2 ^ 53"
  shows "0 \<le> round_real x" and "round_real x \<le> real n" and "fl x = Finite (round_real x)"
proof -
  show 0: "0 \<le> round_real x" by (rule round_real_nonneg [OF assms(1)])
  have "round_real x \<le> round_real (real n)" by (rule round_real_mono [OF assms(2)])
  then show 1: "round_real x \<le> real n" by (simp only: round_real_nat [OF assms(3)])
  have "real n < 2 ^ 53" using assms(3)
    by (metis of_nat_less_numeral_power_cancel_iff)
  also have "(2::real) ^ 53 < huge" by (rule huge_gt)
  finally have "\<bar>round_real x\<bar> < huge" using 0 1 by linarith
  then show "fl x = Finite (round_real x)" by (rule fl_finite)
qed

lemma fl_nat: "n < 2 ^ 53 \<Longrightarrow> fl (real n) = Finite (real n)"
  using round_real_between(3) [of "real n" n] by (simp add: round_real_nat)

section \<open>Properties of the statistics helpers in binary64\<close>

lemma sort_b64_ok: "NaN \<notin> set v \<Longrightarrow> sort_b64 v = Inr (sort_key order_key v)"
  by (simp add: sort_b64_def)

text \<open>Without NaN the order of the keys is \<open><=\<close> on \<open>double\<close>: the sorted vector ascends.\<close>

lemma order_key_le: "x \<noteq> NaN \<Longrightarrow> y \<noteq> NaN \<Longrightarrow> order_key x \<le> order_key y \<longleftrightarrow> dle x y"
  by (cases x; cases y) (auto simp: order_key_def dle_def)

lemma sort_b64_ascending: "NaN \<notin> set v \<Longrightarrow> sorted_wrt dle (sort_key order_key v)"
proof -
  assume n: "NaN \<notin> set v"
  have "sorted (map order_key (sort_key order_key v))" by (rule sorted_sort_key)
  then have "sorted_wrt (\<lambda>x y. order_key x \<le> order_key y) (sort_key order_key v)"
    by (simp only: sorted_map)
  then show ?thesis
  proof (rule sorted_wrt_mono_rel [rotated])
    fix x y assume "x \<in> set (sort_key order_key v)" "y \<in> set (sort_key order_key v)"
      and "order_key x \<le> order_key y"
    then show "dle x y" using n order_key_le [of x y] by (metis set_sort)
  qed
qed

lemma percentile_b64_nonempty:
  assumes "v \<noteq> []" "length v \<le> 2 ^ 53" "NaN \<notin> set v" "0 \<le> x" "x \<le> 1"
  defines "idx \<equiv> nat \<lfloor>round_real (x * real (length v - 1))\<rfloor>"
  shows "percentile_b64 v (Finite x) = Inr (sort_key order_key v ! idx)"
    and "idx < length v"
proof -
  let ?s = "sort_key order_key v"
  let ?n = "length v - 1"
  let ?y = "round_real (x * real ?n)"
  have "0 < length v" using assms(1) by simp
  then have n: "?n < 2 ^ 53" using assms(2) by linarith
  have ls: "length ?s = length v" by simp
  have "0 < length ?s" unfolding ls using assms(1) by simp
  then have s1: "?s \<noteq> []" by (metis length_greater_0_conv)
  have "(2::nat) ^ 53 < 2 ^ 64" by simp
  then have s2: "length ?s < 2 ^ 64" unfolding ls using assms(2) by linarith
  note s = s1 s2
  have c: "to_double (vsize ?s - 1) = real ?n"
    using vsize_minus_one [OF s] by simp
  have o: "of_size (vsize ?s - 1) = Finite (real ?n)"
    unfolding of_size_def c by (rule fl_nat [OF n])
  have x: "0 \<le> x * real ?n" "x * real ?n \<le> real ?n"
    using assms(4,5) by (simp_all add: mult_left_le_one_le)
  note b = round_real_between [OF x n]
  have m: "dmul (Finite x) (of_size (vsize ?s - 1)) = Finite ?y"
    unfolding o dmul.simps by (rule b(3))
  have "real ?n < 2 ^ 53" using n
    by (metis of_nat_less_numeral_power_cancel_iff)
  moreover have "(2::real) ^ 53 \<le> 2 ^ 64" by (rule power_increasing) simp_all
  ultimately have "real ?n < 2 ^ 64" by linarith
  then have y64: "?y < 2 ^ 64" using b(2) by linarith
  have t: "to_size_t ?y = Inr (of_nat idx)" and u: "unat (of_nat idx :: size_t) = idx"
    using to_size_t_floor [OF b(1) y64] unfolding idx_def by blast+
  have "\<lfloor>?y\<rfloor> \<le> int ?n" using b(2) by (simp add: floor_le_iff)
  then have "idx \<le> ?n" unfolding idx_def by linarith
  then show i: "idx < length v" using \<open>0 < length v\<close> by linarith
  have "percentile_b64 v (Finite x) = subscript ?s (of_nat idx)"
    unfolding percentile_b64_def sort_b64_ok [OF assms(3)] and_then_simps m to_size_t_b64_def
      double.case t ..
  also have "\<dots> = Inr (?s ! idx)"
    unfolding subscript_def u using i by simp
  finally show "percentile_b64 v (Finite x) = Inr (sort_key order_key v ! idx)" .
qed

lemma fl_quarter: "fl 0.25 = Finite (1 / 4)" and fl_three_quarters: "fl 0.75 = Finite (3 / 4)"
  and fl_half: "fl 0.5 = Finite (1 / 2)" and fl_zero: "fl 0 = Finite 0" and fl_one: "fl 1 = Finite 1"
  and fl_three_halves: "fl 1.5 = Finite (3 / 2)"
  by (simp_all add: eval_fl)

lemma percentile_b64_sorted:
  "NaN \<notin> set v \<Longrightarrow> percentile_b64 (sort_key order_key v) p = percentile_b64 v p"
  by (simp add: percentile_b64_def sort_b64_def sort_key_id_if_sorted)

lemma fl_0: "fl 0 = Finite 0"
  by (simp add: fl_def round_real_def huge_def)

lemma vsize_size: "length v < 2 ^ 53 \<Longrightarrow> v \<noteq> [] \<Longrightarrow> vsize v \<noteq> 0 \<and> of_size (vsize v) = Finite (real (length v))"
proof -
  assume l: "length v < 2 ^ 53" and n: "v \<noteq> []"
  have "(2::nat) ^ 53 < 2 ^ 64" by simp
  then have l64: "length v < 2 ^ 64" using l by linarith
  have "vsize v \<noteq> 0" using n by (simp add: vsize_eq_0 [OF l64])
  moreover have "of_size (vsize v) = Finite (real (length v))"
    unfolding of_size_def to_double_def vsize_unat [OF l64] by (rule fl_nat [OF l])
  ultimately show ?thesis ..
qed

lemma fdiv_b64_size:
  "length v < 2 ^ 53 \<Longrightarrow> v \<noteq> [] \<Longrightarrow> fdiv_b64 x (vsize v) = Inr (ddiv x (Finite (real (length v))))"
  using vsize_size [of v] by (simp add: fdiv_b64_def)

lemma sum_replicate_exact:
  assumes "\<And>k. 1 \<le> k \<and> k \<le> j + m \<Longrightarrow> fl (real k * c) = Finite (real k * c)"
  shows "foldl (\<lambda>sum x. dadd sum x) (Finite (real j * c)) (replicate m (Finite c))
           = Finite (real (j + m) * c)"
  using assms
proof (induction m arbitrary: j)
  case 0
  then show ?case by simp
next
  case (Suc m)
  have "real j * c + c = real (Suc j) * c" by (simp add: algebra_simps)
  then have "dadd (Finite (real j * c)) (Finite c) = Finite (real (Suc j) * c)"
    using Suc.prems [of "Suc j"] by simp
  then show ?case
    using Suc.IH [of "Suc j"] Suc.prems by simp
qed

lemma sum_zero_squares:
  "foldl (\<lambda>sum x. dadd sum (dmul (dsub x (Finite c)) (dsub x (Finite c)))) (Finite 0)
     (replicate m (Finite c)) = Finite 0"
  by (induction m) (simp_all add: fl_0)

lemma replicate_numeral: "replicate (numeral k) x = x # replicate (pred_numeral k) x"
  by (simp add: numeral_eq_Suc)

lemma fl_FiniteD: "fl a = Finite a \<Longrightarrow> round_real a = a \<and> - huge < a \<and> a < huge"
  by (auto simp: fl_def Let_def split: if_splits)

lemma fl_cases:
  obtains (pos) "fl x = PosInf" "huge \<le> round_real x"
  | (neg) "fl x = NegInf" "round_real x \<le> - huge"
  | (fin) "fl x = Finite (round_real x)" "- huge < round_real x" "round_real x < huge"
  using huge_pos by (cases "huge \<le> round_real x"; cases "round_real x \<le> - huge")
    (auto simp: fl_def Let_def)

lemma fl_nonneg: "0 \<le> x \<Longrightarrow> nonneg_or_inf (fl x)"
  using round_real_nonneg [of x] huge_pos
  by (cases x rule: fl_cases) (simp_all add: nonneg_or_inf_def)

lemma three_halves_nonneg: "nonneg_or_inf d \<Longrightarrow> nonneg_or_inf (dmul (fl 1.5) d)"
  unfolding fl_three_halves
  by (cases d) (simp_all add: nonneg_or_inf_def fl_nonneg [unfolded nonneg_or_inf_def])

lemma fence_lower:
  assumes "fl a = Finite a" "nonneg_or_inf t"
  shows "dge (Finite a) (dsub (Finite a) t)"
proof (cases t)
  case (Finite r)
  then have r: "0 \<le> r" using assms(2) by (simp add: nonneg_or_inf_def)
  have "round_real (a - r) \<le> round_real a" by (rule round_real_mono) (use r in simp)
  then have le: "round_real (a - r) \<le> a" "round_real (a - r) < huge"
    using fl_FiniteD [OF assms(1)] by simp_all
  show ?thesis
    unfolding Finite dsub.simps using le
    by (cases "a - r" rule: fl_cases) (simp_all add: dge_def dle_def)
next
  case PosInf
  then show ?thesis by (simp add: dge_def dle_def)
next
  case NegInf
  then show ?thesis using assms(2) by (simp add: nonneg_or_inf_def)
next
  case NaN
  then show ?thesis using assms(2) by (simp add: nonneg_or_inf_def)
qed

lemma fence_upper:
  assumes "fl b = Finite b" "a \<le> b" "nonneg_or_inf t"
  shows "dle (Finite a) (dadd (Finite b) t)"
proof (cases t)
  case (Finite r)
  then have r: "0 \<le> r" using assms(3) by (simp add: nonneg_or_inf_def)
  have "round_real b \<le> round_real (b + r)" by (rule round_real_mono) (use r in simp)
  then have le: "a \<le> round_real (b + r)" "- huge < round_real (b + r)"
    using fl_FiniteD [OF assms(1)] assms(2) by simp_all
  show ?thesis
    unfolding Finite dadd.simps using le
    by (cases "b + r" rule: fl_cases) (simp_all add: dle_def)
next
  case PosInf
  then show ?thesis by (simp add: dle_def)
next
  case NegInf
  then show ?thesis using assms(3) by (simp add: nonneg_or_inf_def)
next
  case NaN
  then show ?thesis using assms(3) by (simp add: nonneg_or_inf_def)
qed

lemma finite_no_NaN: "list_all is_finite_double v \<Longrightarrow> NaN \<notin> set v"
  by (auto simp: list_all_iff is_finite_double_def)

lemma finite_elem:
  assumes "list_all is_finite_double v" "d \<in> set v"
  obtains a where "d = Finite a" "fl a = Finite a"
  using assms by (cases d) (auto simp: list_all_iff is_finite_double_def)

lemma order_key_Finite: "order_key (Finite a) \<le> order_key (Finite b) \<longleftrightarrow> a \<le> b"
  by (simp add: order_key_def)

lemma rank_b64_mono:
  "0 \<le> x \<Longrightarrow> x \<le> y \<Longrightarrow>
   nat \<lfloor>round_real (x * real n)\<rfloor> \<le> nat \<lfloor>round_real (y * real n)\<rfloor>"
  by (intro nat_mono floor_mono round_real_mono mult_right_mono) simp_all

text \<open>
  On a vector of finite doubles the first quartile is not above the third, is a double
  itself, and so passes both fences: the filtered vector is not empty.
\<close>

lemma filter_outliers_b64_finite:
  assumes "v \<noteq> []" "length v < 2 ^ 53" "list_all is_finite_double v"
  obtains out q1 where "filter_outliers_b64 v = Inr out" "out \<noteq> []" "set out \<subseteq> set v"
    "length out \<le> length v" "percentile_b64 v (fl 0.25) = Inr q1" "q1 \<in> set out"
proof -
  let ?s = "sort_key order_key v"
  let ?n = "length v - 1"
  define i1 where "i1 = nat \<lfloor>round_real (1 / 4 * real ?n)\<rfloor>"
  define i3 where "i3 = nat \<lfloor>round_real (3 / 4 * real ?n)\<rfloor>"
  have nan: "NaN \<notin> set v" by (rule finite_no_NaN [OF assms(3)])
  have l: "length v \<le> 2 ^ 53" using assms(2) by simp
  have p1: "percentile_b64 v (fl 0.25) = Inr (?s ! i1)" and r1: "i1 < length v"
    unfolding fl_quarter i1_def
    by (rule percentile_b64_nonempty [OF assms(1) l nan]; simp)+
  have p3: "percentile_b64 v (fl 0.75) = Inr (?s ! i3)" and r3: "i3 < length v"
    unfolding fl_three_quarters i3_def
    by (rule percentile_b64_nonempty [OF assms(1) l nan]; simp)+
  have i13: "i1 \<le> i3"
    unfolding i1_def i3_def by (rule rank_b64_mono) simp_all
  have m1: "?s ! i1 \<in> set v" and m3: "?s ! i3 \<in> set v"
    using r1 r3 nth_mem [of i1 ?s] nth_mem [of i3 ?s] by simp_all
  obtain a where a: "?s ! i1 = Finite a" "fl a = Finite a"
    by (rule finite_elem [OF assms(3) m1])
  obtain b where b: "?s ! i3 = Finite b" "fl b = Finite b"
    by (rule finite_elem [OF assms(3) m3])
  have "sorted (map order_key ?s)" by (rule sorted_sort_key)
  then have "map order_key ?s ! i1 \<le> map order_key ?s ! i3"
    by (rule sorted_nth_mono) (use i13 r3 in simp_all)
  then have "order_key (?s ! i1) \<le> order_key (?s ! i3)"
    using r1 r3 by simp
  then have ab: "a \<le> b" unfolding a b by (simp only: order_key_Finite)
  define t where "t = dmul (fl 1.5) (dsub (Finite b) (Finite a))"
  have "nonneg_or_inf (dsub (Finite b) (Finite a))"
    unfolding dsub.simps by (rule fl_nonneg) (use ab in simp)
  then have t: "nonneg_or_inf t" unfolding t_def by (rule three_halves_nonneg)
  define P where "P = (\<lambda>x. dge x (dsub (Finite a) t) \<and> dle x (dadd (Finite b) t))"
  have f: "filter_outliers_b64 v = Inr (filter P ?s)"
    unfolding filter_outliers_b64_def sort_b64_ok [OF nan] and_then_simps
      percentile_b64_sorted [OF nan] p1 p3 Let_def P_def t_def a b ..
  have "P (Finite a)"
    unfolding P_def using fence_lower [OF a(2) t] fence_upper [OF b(2) ab t] by simp
  moreover have "Finite a \<in> set ?s"
    using r1 nth_mem [of i1 ?s] a(1) by simp
  ultimately have q: "Finite a \<in> set (filter P ?s)" by simp
  then have ne: "filter P ?s \<noteq> []" by (metis empty_iff list.set(1))
  have sub: "set (filter P ?s) \<subseteq> set v" by auto
  have "length (filter P ?s) \<le> length ?s" by (rule length_filter_le)
  then have len: "length (filter P ?s) \<le> length v" by simp
  show ?thesis by (rule that [OF f ne sub len p1 [unfolded a(1)] q])
qed

lemma min_element_b64_nonempty: "v \<noteq> [] \<Longrightarrow> \<exists>m. min_element_b64 v = Inr m"
  by (cases v) (simp_all add: min_element_b64_def)

lemma max_element_b64_nonempty: "v \<noteq> [] \<Longrightarrow> \<exists>m. max_element_b64 v = Inr m"
  by (cases v) (simp_all add: max_element_b64_def)

lemma mean_b64_nonempty: "v \<noteq> [] \<Longrightarrow> length v < 2 ^ 53 \<Longrightarrow> \<exists>m. mean_b64 v = Inr m"
  by (simp add: mean_b64_def fdiv_b64_size)

lemma stddev_b64_nonempty: "v \<noteq> [] \<Longrightarrow> length v < 2 ^ 53 \<Longrightarrow> \<exists>m. stddev_b64 v avg = Inr m"
  by (simp add: stddev_b64_def fdiv_b64_size and_then_simps)

lemma percentile_b64_total:
  "v \<noteq> [] \<Longrightarrow> length v < 2 ^ 53 \<Longrightarrow> NaN \<notin> set v \<Longrightarrow> 0 \<le> q \<Longrightarrow> q \<le> 1 \<Longrightarrow>
   \<exists>y. percentile_b64 v (Finite q) = Inr y"
  using percentile_b64_nonempty(1) [of v q] by simp

lemma fl_report_percentiles:
  "fl 0.50 = Finite (1 / 2)"
  "fl 0.90 = Finite (8106479329266893 / 2 ^ 53)"
  "fl 0.95 = Finite (4278419646001971 / 2 ^ 52)"
  "fl 0.99 = Finite (4458563631096791 / 2 ^ 52)"
  by (simp_all add: eval_fl)

lemma report_calls_b64_finite:
  assumes "length v < 2 ^ 53" "list_all is_finite_double v" "bs \<noteq> 0"
  shows "\<exists>r. report_calls_b64 bs v = Inr r"
proof (cases "v = []")
  case True
  then show ?thesis by (simp add: report_calls_b64_def)
next
  case False
  obtain out q1 where o: "filter_outliers_b64 v = Inr out" "out \<noteq> []" "set out \<subseteq> set v"
    "length out \<le> length v" "percentile_b64 v (fl 0.25) = Inr q1" "q1 \<in> set out"
    by (rule filter_outliers_b64_finite [OF False assms(1,2)])
  have l: "length out < 2 ^ 53" using o(4) assms(1) by linarith
  have nan: "NaN \<notin> set out" using finite_no_NaN [OF assms(2)] o(3) by auto
  obtain lo where lo: "min_element_b64 out = Inr lo"
    using min_element_b64_nonempty [OF o(2)] ..
  obtain hi where hi: "max_element_b64 out = Inr hi"
    using max_element_b64_nonempty [OF o(2)] ..
  obtain avg where avg: "mean_b64 out = Inr avg"
    using mean_b64_nonempty [OF o(2) l] ..
  obtain sd where sd: "stddev_b64 out avg = Inr sd"
    using stddev_b64_nonempty [OF o(2) l] ..
  have "\<exists>y. percentile_b64 out (fl 0.50) = Inr y"
    unfolding fl_report_percentiles by (rule percentile_b64_total [OF o(2) l nan]) simp_all
  then obtain p50 where p50: "percentile_b64 out (fl 0.50) = Inr p50" ..
  have "\<exists>y. percentile_b64 out (fl 0.90) = Inr y"
    unfolding fl_report_percentiles by (rule percentile_b64_total [OF o(2) l nan]) simp_all
  then obtain p90 where p90: "percentile_b64 out (fl 0.90) = Inr p90" ..
  have "\<exists>y. percentile_b64 out (fl 0.95) = Inr y"
    unfolding fl_report_percentiles by (rule percentile_b64_total [OF o(2) l nan]) simp_all
  then obtain p95 where p95: "percentile_b64 out (fl 0.95) = Inr p95" ..
  have "\<exists>y. percentile_b64 out (fl 0.99) = Inr y"
    unfolding fl_report_percentiles by (rule percentile_b64_total [OF o(2) l nan]) simp_all
  then obtain p99 where p99: "percentile_b64 out (fl 0.99) = Inr p99" ..
  have per_op: "fdiv_b64 avg bs = Inr (ddiv avg (of_size bs))"
    using assms(3) by (simp add: fdiv_b64_def)
  show ?thesis
    unfolding report_calls_b64_def using False
    by (simp only: if_False o(1) lo hi avg sd p50 p90 p95 p99 per_op and_then_simps) blast
qed

lemma percentile_b64_empty: "\<exists>e. percentile_b64 [] p = Inl e"
proof (cases "to_size_t_b64 (dmul p (of_size (vsize ([] :: double list) - 1)))")
  case (Inl e)
  then show ?thesis by (simp add: percentile_b64_def sort_b64_def and_then_simps)
next
  case (Inr idx)
  then show ?thesis by (simp add: percentile_b64_def sort_b64_def and_then_simps subscript_def)
qed

lemma sort_key_ramp:
  "sort_key order_key (map Finite (map real [0..<n])) = map Finite (map real [0..<n])"
  by (rule sort_key_id_if_sorted)
    (simp add: sorted_wrt_map sorted_wrt_iff_nth_less order_key_def less_eq_prod_def)

lemma ramp_no_NaN: "NaN \<notin> set (map Finite (map real [0..<n]))"
  by auto

section \<open>The claims about the statistics in binary64\<close>

text \<open>
  Claim C2, amended. For a vector of fewer than \<open>2^53\<close> values, not empty and without
  NaN, and \<open>0 \<le> p \<le> 1\<close>, \<open>percentile\<close> sorts the values ascending and returns the
  element at the index obtained by truncating the rounded binary64 product
  \<open>p * (N - 1)\<close>; the index is in range and the result is one of the values, without
  interpolation. The index is \<open>floor (p * (N - 1))\<close> whenever that product is a double.
  For \<open>[1, 2, 3, 4, 5]\<close> the result is 3 at \<open>p = 0.5\<close>, 1 at \<open>p = 0\<close> and 5 at \<open>p = 1\<close>.
\<close>

theorem percentile_b64_rank:
  "(v \<noteq> [] \<longrightarrow> length v < 2 ^ 53 \<longrightarrow> NaN \<notin> set v \<longrightarrow> 0 \<le> x \<longrightarrow> x \<le> 1 \<longrightarrow>
      sorted_wrt dle (sort_key order_key v) \<and> mset (sort_key order_key v) = mset v
      \<and> nat \<lfloor>round_real (x * real (length v - 1))\<rfloor> < length v
      \<and> percentile_b64 v (Finite x)
          = Inr (sort_key order_key v ! nat \<lfloor>round_real (x * real (length v - 1))\<rfloor>)
      \<and> (\<exists>y \<in> set v. percentile_b64 v (Finite x) = Inr y)
      \<and> (round_real (x * real (length v - 1)) = x * real (length v - 1) \<longrightarrow>
           percentile_b64 v (Finite x)
             = Inr (sort_key order_key v ! nat \<lfloor>x * real (length v - 1)\<rfloor>)))
   \<and> percentile_b64 (map Finite [1, 2, 3, 4, 5]) (fl 0.5) = Inr (Finite 3)
   \<and> percentile_b64 (map Finite [1, 2, 3, 4, 5]) (fl 0) = Inr (Finite 1)
   \<and> percentile_b64 (map Finite [1, 2, 3, 4, 5]) (fl 1) = Inr (Finite 5)"
proof (intro conjI impI)
  assume a: "v \<noteq> []" "length v < 2 ^ 53" "NaN \<notin> set v" "0 \<le> x" "x \<le> 1"
  have l: "length v \<le> 2 ^ 53" using a(2) by simp
  note p = percentile_b64_nonempty [OF a(1) l a(3,4,5)]
  show "sorted_wrt dle (sort_key order_key v)" by (rule sort_b64_ascending [OF a(3)])
  show "mset (sort_key order_key v) = mset v" by (rule mset_sort)
  show r: "nat \<lfloor>round_real (x * real (length v - 1))\<rfloor> < length v" by (rule p(2))
  show e: "percentile_b64 v (Finite x)
          = Inr (sort_key order_key v ! nat \<lfloor>round_real (x * real (length v - 1))\<rfloor>)"
    by (rule p(1))
  have "nat \<lfloor>round_real (x * real (length v - 1))\<rfloor> < length (sort_key order_key v)"
    using r by (simp only: length_sort)
  then have "sort_key order_key v ! nat \<lfloor>round_real (x * real (length v - 1))\<rfloor>
      \<in> set (sort_key order_key v)"
    by (rule nth_mem)
  then have "sort_key order_key v ! nat \<lfloor>round_real (x * real (length v - 1))\<rfloor> \<in> set v"
    by (simp only: set_sort)
  then show "\<exists>y \<in> set v. percentile_b64 v (Finite x) = Inr y"
    using e by blast
  assume "round_real (x * real (length v - 1)) = x * real (length v - 1)"
  then show "percentile_b64 v (Finite x)
             = Inr (sort_key order_key v ! nat \<lfloor>x * real (length v - 1)\<rfloor>)"
    using e by (simp only:)
next
  show "percentile_b64 (map Finite [1, 2, 3, 4, 5]) (fl 0.5) = Inr (Finite 3)"
    by (simp add: eval_fl percentile_b64_def sort_b64_def order_key_def and_then_simps
        to_size_t_b64_def to_size_t_def toward_zero_def of_size_def to_double_def vsize_def
        subscript_def)
  show "percentile_b64 (map Finite [1, 2, 3, 4, 5]) (fl 0) = Inr (Finite 1)"
    by (simp add: eval_fl percentile_b64_def sort_b64_def order_key_def and_then_simps
        to_size_t_b64_def to_size_t_def toward_zero_def of_size_def to_double_def vsize_def
        subscript_def)
  show "percentile_b64 (map Finite [1, 2, 3, 4, 5]) (fl 1) = Inr (Finite 5)"
    by (simp add: eval_fl percentile_b64_def sort_b64_def order_key_def and_then_simps
        to_size_t_b64_def to_size_t_def toward_zero_def of_size_def to_double_def vsize_def
        subscript_def)
qed

theorem percentile_b64_rank_witness:
  "map Finite [40, 10, 30, 20] \<noteq> [] \<and> length (map Finite [40, 10, 30, 20]) < 2 ^ 53
   \<and> NaN \<notin> set (map Finite [40, 10, 30, 20]) \<and> (0::real) \<le> 9 / 10 \<and> (9 / 10 :: real) \<le> 1
   \<and> round_real (9 / 10 * real (length (map Finite [40, 10, 30, 20]) - 1))
       = 6079859496950170 / 2 ^ 51
   \<and> percentile_b64 (map Finite [40, 10, 30, 20]) (Finite (9 / 10)) = Inr (Finite 30)"
proof -
  have r: "round_real (27 / 10) = 6079859496950170 / 2 ^ 51"
    by (simp add: eval_fl)
  show ?thesis
    using percentile_b64_rank [of "map Finite [40, 10, 30, 20]" "9 / 10"]
    by (simp add: r order_key_def)
qed

text \<open>
  The index is not \<open>floor (p * (N - 1))\<close> in general. With the double \<open>0.6\<close> and six
  values the product \<open>0.6 * 5\<close> lies below 3 and rounds to 3: the code returns the
  fourth value, the floor of the exact product selects the third. With the literal
  \<open>0.58\<close> read as the decimal number and 51 values, \<open>0.58 * 50 = 29\<close>, while the product
  of the double \<open>0.58\<close> and 50 rounds to a double below 29: the code returns the value
  at index 28.
\<close>

theorem percentile_b64_rank_counterexample:
  "fl 0.6 = Finite (5404319552844595 / 2 ^ 53)
   \<and> percentile_b64 (map Finite [1, 2, 3, 4, 5, 6]) (fl 0.6) = Inr (Finite 4)
   \<and> map Finite [1, 2, 3, 4, 5, 6] ! nat \<lfloor>5404319552844595 / 2 ^ 53 * real (6 - 1)\<rfloor> = Finite 3
   \<and> fl 0.58 = Finite (5224175567749775 / 2 ^ 53)
   \<and> percentile_b64 (map Finite (map real [0..<51])) (fl 0.58) = Inr (Finite 28)
   \<and> map Finite (map real [0..<51]) ! nat \<lfloor>(0.58 :: real) * real (51 - 1)\<rfloor> = Finite 29"
proof -
  have e: "fl 0.6 = Finite (5404319552844595 / 2 ^ 53)"
    "percentile_b64 (map Finite [1, 2, 3, 4, 5, 6]) (fl 0.6) = Inr (Finite 4)"
    "map Finite [1, 2, 3, 4, 5, 6] ! nat \<lfloor>5404319552844595 / 2 ^ 53 * real (6 - 1)\<rfloor> = Finite 3"
    by (simp_all add: eval_fl percentile_b64_def sort_b64_def order_key_def and_then_simps
      to_size_t_b64_def to_size_t_def toward_zero_def of_size_def to_double_def vsize_def
      subscript_def)
  have a: "fl 0.58 = Finite (5224175567749775 / 2 ^ 53)"
    by (simp add: eval_fl)
  have b: "to_size_t_b64 (dmul (Finite (5224175567749775 / 2 ^ 53)) (of_size (vsize [0..<51] - 1)))
      = Inr 28"
    by (simp add: eval_fl to_size_t_b64_def to_size_t_def toward_zero_def of_size_def to_double_def
        vsize_def)
  have c: "percentile_b64 (map Finite (map real [0..<51])) (fl 0.58) = Inr (Finite 28)"
    unfolding percentile_b64_def sort_b64_ok [OF ramp_no_NaN] sort_key_ramp a
    using b by (simp add: and_then_simps vsize_def subscript_def)
  have d: "map Finite (map real [0..<51]) ! nat \<lfloor>(0.58 :: real) * real (51 - 1)\<rfloor> = Finite 29"
    by simp
  from e a c d show ?thesis by (intro conjI)
qed

text \<open>
  Claim C3, amended. For a vector of fewer than \<open>2^53\<close> values, not empty and without
  NaN, \<open>filter_outliers\<close> sorts ascending, takes \<open>q1 = percentile(v, 0.25)\<close> and
  \<open>q3 = percentile(v, 0.75)\<close>, computes \<open>iqr = q3 - q1\<close>, \<open>lo = q1 - 1.5 * iqr\<close> and
  \<open>hi = q3 + 1.5 * iqr\<close> in binary64, each operation rounded, and retains exactly the
  values \<open>x\<close> with \<open>x >= lo\<close> and \<open>x <= hi\<close> for these rounded fences, both ends
  included, in sorted order; the result is a sub-multiset of the input.
\<close>

theorem filter_outliers_b64_fences:
  assumes "v \<noteq> []" and "length v < 2 ^ 53" and "NaN \<notin> set v"
  shows "\<exists>q1 q3 iqr lo hi out.
           percentile_b64 v (fl 0.25) = Inr q1 \<and> percentile_b64 v (fl 0.75) = Inr q3
         \<and> iqr = dsub q3 q1
         \<and> lo = dsub q1 (dmul (fl 1.5) iqr)
         \<and> hi = dadd q3 (dmul (fl 1.5) iqr)
         \<and> filter_outliers_b64 v = Inr out
         \<and> out = filter (\<lambda>x. dge x lo \<and> dle x hi) (sort_key order_key v)
         \<and> sorted_wrt dle out
         \<and> mset out = filter_mset (\<lambda>x. dge x lo \<and> dle x hi) (mset v)
         \<and> mset out \<subseteq># mset v"
proof -
  have l: "length v \<le> 2 ^ 53" using assms(2) by simp
  have "\<exists>q1. percentile_b64 v (fl 0.25) = Inr q1"
    unfolding fl_quarter
    by (rule exI, rule percentile_b64_nonempty(1) [OF assms(1) l assms(3)]) simp_all
  then obtain q1 where p1: "percentile_b64 v (fl 0.25) = Inr q1" ..
  have "\<exists>q3. percentile_b64 v (fl 0.75) = Inr q3"
    unfolding fl_three_quarters
    by (rule exI, rule percentile_b64_nonempty(1) [OF assms(1) l assms(3)]) simp_all
  then obtain q3 where p3: "percentile_b64 v (fl 0.75) = Inr q3" ..
  define lo where "lo = dsub q1 (dmul (fl 1.5) (dsub q3 q1))"
  define hi where "hi = dadd q3 (dmul (fl 1.5) (dsub q3 q1))"
  define P where "P = (\<lambda>x. dge x lo \<and> dle x hi)"
  have f: "filter_outliers_b64 v = Inr (filter P (sort_key order_key v))"
    unfolding filter_outliers_b64_def sort_b64_ok [OF assms(3)] and_then_simps
      percentile_b64_sorted [OF assms(3)] p1 p3 Let_def P_def lo_def hi_def ..
  have s: "sorted_wrt dle (filter P (sort_key order_key v))"
    by (rule sorted_wrt_filter) (rule sort_b64_ascending [OF assms(3)])
  have m: "mset (filter P (sort_key order_key v)) = filter_mset P (mset v)"
    by simp
  have "mset (filter P (sort_key order_key v)) \<subseteq># mset v"
    unfolding m by (rule multiset_filter_subset)
  with p1 p3 f s m show ?thesis
    unfolding P_def lo_def hi_def by blast
qed

theorem filter_outliers_b64_fences_witness:
  "map Finite [7, 1, 50, 3, 3] \<noteq> [] \<and> length (map Finite [7, 1, 50, 3, 3]) < 2 ^ 53
   \<and> NaN \<notin> set (map Finite [7, 1, 50, 3, 3])
   \<and> (\<exists>q1 q3 iqr lo hi out.
           percentile_b64 (map Finite [7, 1, 50, 3, 3]) (fl 0.25) = Inr q1
         \<and> percentile_b64 (map Finite [7, 1, 50, 3, 3]) (fl 0.75) = Inr q3
         \<and> iqr = dsub q3 q1
         \<and> lo = dsub q1 (dmul (fl 1.5) iqr)
         \<and> hi = dadd q3 (dmul (fl 1.5) iqr)
         \<and> filter_outliers_b64 (map Finite [7, 1, 50, 3, 3]) = Inr out
         \<and> out = filter (\<lambda>x. dge x lo \<and> dle x hi) (sort_key order_key (map Finite [7, 1, 50, 3, 3]))
         \<and> sorted_wrt dle out
         \<and> mset out = filter_mset (\<lambda>x. dge x lo \<and> dle x hi) (mset (map Finite [7, 1, 50, 3, 3]))
         \<and> mset out \<subseteq># mset (map Finite [7, 1, 50, 3, 3]))
   \<and> percentile_b64 (map Finite [7, 1, 50, 3, 3]) (fl 0.25) = Inr (Finite 3)
   \<and> percentile_b64 (map Finite [7, 1, 50, 3, 3]) (fl 0.75) = Inr (Finite 7)
   \<and> dsub (Finite 7) (Finite 3) = Finite 4
   \<and> dsub (Finite 3) (dmul (fl 1.5) (Finite 4)) = Finite (- 3)
   \<and> dadd (Finite 7) (dmul (fl 1.5) (Finite 4)) = Finite 13
   \<and> filter_outliers_b64 (map Finite [7, 1, 50, 3, 3]) = Inr (map Finite [1, 3, 3, 7])"
proof -
  have h: "map Finite [7, 1, 50, 3, 3] \<noteq> []" "length (map Finite [7, 1, 50, 3, 3]) < 2 ^ 53"
    "NaN \<notin> set (map Finite [7, 1, 50, 3, 3])"
    by simp_all
  have e: "percentile_b64 (map Finite [7, 1, 50, 3, 3]) (fl 0.25) = Inr (Finite 3)"
    "percentile_b64 (map Finite [7, 1, 50, 3, 3]) (fl 0.75) = Inr (Finite 7)"
    "dsub (Finite 7) (Finite 3) = Finite 4"
    "dsub (Finite 3) (dmul (fl 1.5) (Finite 4)) = Finite (- 3)"
    "dadd (Finite 7) (dmul (fl 1.5) (Finite 4)) = Finite 13"
    "filter_outliers_b64 (map Finite [7, 1, 50, 3, 3]) = Inr (map Finite [1, 3, 3, 7])"
    by (simp_all add: eval_fl filter_outliers_b64_def percentile_b64_def sort_b64_def order_key_def
        and_then_simps to_size_t_b64_def to_size_t_def toward_zero_def of_size_def to_double_def
        vsize_def subscript_def dge_def dle_def)
  from filter_outliers_b64_fences [OF h] h e show ?thesis
    by (intro conjI)
qed

text \<open>
  The retained values are not those inside the exact fences. In \<open>{0.1, 0.6, 0.3, 0.1, 0.2}\<close>
  the double \<open>0.6\<close> lies above \<open>q3 + 1.5 * (q3 - q1)\<close> computed exactly from the
  doubles \<open>q1 = 0.1\<close> and \<open>q3 = 0.3\<close>, and the code keeps it. In
  \<open>{0.8, 1.9, 2.0, 2.3, 2.9, 2.9}\<close>, read as decimal numbers, \<open>2.9\<close> is the upper fence
  \<open>2.3 + 1.5 * (2.3 - 1.9)\<close> itself, and the code drops both copies of it.
\<close>

theorem filter_outliers_b64_fences_counterexample:
  "percentile_b64 (map fl [0.1, 0.6, 0.3, 0.1, 0.2]) (fl 0.25) = Inr (fl 0.1)
   \<and> percentile_b64 (map fl [0.1, 0.6, 0.3, 0.1, 0.2]) (fl 0.75) = Inr (fl 0.3)
   \<and> filter_outliers_b64 (map fl [0.1, 0.6, 0.3, 0.1, 0.2])
       = Inr (map fl [0.1, 0.1, 0.2, 0.3, 0.6])
   \<and> fl 0.1 = Finite (round_real 0.1) \<and> fl 0.3 = Finite (round_real 0.3)
   \<and> fl 0.6 = Finite (round_real 0.6)
   \<and> \<not> round_real 0.6 \<le> round_real 0.3 + 1.5 * (round_real 0.3 - round_real 0.1)
   \<and> percentile_b64 (map fl [0.8, 1.9, 2.0, 2.3, 2.9, 2.9]) (fl 0.25) = Inr (fl 1.9)
   \<and> percentile_b64 (map fl [0.8, 1.9, 2.0, 2.3, 2.9, 2.9]) (fl 0.75) = Inr (fl 2.3)
   \<and> filter_outliers_b64 (map fl [0.8, 1.9, 2.0, 2.3, 2.9, 2.9]) = Inr (map fl [1.9, 2.0, 2.3])
   \<and> (1.9 :: real) - 1.5 * (2.3 - 1.9) \<le> 2.9 \<and> (2.9 :: real) \<le> 2.3 + 1.5 * (2.3 - 1.9)"
proof -
  have a: "percentile_b64 (map fl [0.1, 0.6, 0.3, 0.1, 0.2]) (fl 0.25) = Inr (fl 0.1)"
    "percentile_b64 (map fl [0.1, 0.6, 0.3, 0.1, 0.2]) (fl 0.75) = Inr (fl 0.3)"
    "filter_outliers_b64 (map fl [0.1, 0.6, 0.3, 0.1, 0.2])
       = Inr (map fl [0.1, 0.1, 0.2, 0.3, 0.6])"
    by (simp_all add: eval_fl filter_outliers_b64_def percentile_b64_def sort_b64_def order_key_def
      and_then_simps to_size_t_b64_def to_size_t_def toward_zero_def of_size_def to_double_def
      vsize_def subscript_def dge_def dle_def)
  have b: "fl 0.1 = Finite (round_real 0.1)" "fl 0.3 = Finite (round_real 0.3)"
    "fl 0.6 = Finite (round_real 0.6)"
    "\<not> round_real 0.6 \<le> round_real 0.3 + 1.5 * (round_real 0.3 - round_real 0.1)"
    by (simp_all add: eval_fl)
  have c: "percentile_b64 (map fl [0.8, 1.9, 2.0, 2.3, 2.9, 2.9]) (fl 0.25) = Inr (fl 1.9)"
    "percentile_b64 (map fl [0.8, 1.9, 2.0, 2.3, 2.9, 2.9]) (fl 0.75) = Inr (fl 2.3)"
    "filter_outliers_b64 (map fl [0.8, 1.9, 2.0, 2.3, 2.9, 2.9]) = Inr (map fl [1.9, 2.0, 2.3])"
    by (simp_all add: eval_fl filter_outliers_b64_def percentile_b64_def sort_b64_def order_key_def
      and_then_simps to_size_t_b64_def to_size_t_def toward_zero_def of_size_def to_double_def
      vsize_def subscript_def dge_def dle_def)
  have d: "(1.9 :: real) - 1.5 * (2.3 - 1.9) \<le> 2.9" "(2.9 :: real) \<le> 2.3 + 1.5 * (2.3 - 1.9)"
    by simp_all
  from a b c d show ?thesis by (intro conjI)
qed

text \<open>
  Claim C6, amended. \<open>stddev(samples, mean)\<close> is the population standard deviation:
  the sum of the squared deviations is divided by \<open>N\<close>, not \<open>N - 1\<close>, before the root
  is taken. For \<open>n\<close> copies of a finite double \<open>c\<close> (\<open>0 < n < 2^53\<close>), \<open>stddev\<close> about
  \<open>c\<close> returns 0, and \<open>mean\<close> returns \<open>c\<close> when every multiple \<open>k * c\<close> with \<open>k \<le> n\<close>
  is a double, so that the running sum is exact.
\<close>

theorem stddev_b64_population:
  "(v \<noteq> [] \<longrightarrow> length v < 2 ^ 53 \<longrightarrow>
      stddev_b64 v avg
        = Inr (dsqrt (ddiv (foldl (\<lambda>sum x. dadd sum (dmul (dsub x avg) (dsub x avg))) (Finite 0) v)
                       (Finite (real (length v))))))
   \<and> (0 < n \<longrightarrow> n < 2 ^ 53 \<longrightarrow>
        stddev_b64 (replicate n (Finite c)) (Finite c) = Inr (Finite 0))
   \<and> (0 < n \<longrightarrow> n < 2 ^ 53 \<longrightarrow>
      (\<forall>k. 1 \<le> k \<and> k \<le> n \<longrightarrow> fl (real k * c) = Finite (real k * c)) \<longrightarrow>
      mean_b64 (replicate n (Finite c)) = Inr (Finite c))
   \<and> stddev_b64 [Finite 1, Finite 3] (Finite 2) = Inr (Finite 1)"
proof (intro conjI impI)
  assume "v \<noteq> []" "length v < 2 ^ 53"
  then show "stddev_b64 v avg
        = Inr (dsqrt (ddiv (foldl (\<lambda>sum x. dadd sum (dmul (dsub x avg) (dsub x avg))) (Finite 0) v)
                       (Finite (real (length v)))))"
    by (simp add: stddev_b64_def fdiv_b64_size and_then_simps)
next
  assume n: "0 < n" "n < 2 ^ 53"
  have l: "replicate n (Finite c) \<noteq> []" "length (replicate n (Finite c)) < 2 ^ 53"
    using n by simp_all
  show "stddev_b64 (replicate n (Finite c)) (Finite c) = Inr (Finite 0)"
    using n(1)
    by (simp add: stddev_b64_def sum_zero_squares fdiv_b64_size [OF l(2,1)] and_then_simps fl_0)
next
  assume n: "0 < n" "n < 2 ^ 53"
    and r: "\<forall>k. 1 \<le> k \<and> k \<le> n \<longrightarrow> fl (real k * c) = Finite (real k * c)"
  have l: "replicate n (Finite c) \<noteq> []" "length (replicate n (Finite c)) < 2 ^ 53"
    using n by simp_all
  have "foldl (\<lambda>sum x. dadd sum x) (Finite (real 0 * c)) (replicate n (Finite c))
           = Finite (real (0 + n) * c)"
    by (rule sum_replicate_exact) (use r in simp)
  then have s: "foldl (\<lambda>sum x. dadd sum x) (Finite 0) (replicate n (Finite c)) = Finite (real n * c)"
    by simp
  have c: "fl c = Finite c" using r n(1) by (metis One_nat_def Suc_leI le_refl mult_1 of_nat_1)
  have "real n * c / real n = c" using n(1) by simp
  then show "mean_b64 (replicate n (Finite c)) = Inr (Finite c)"
    using n(1) by (simp add: mean_b64_def s fdiv_b64_size [OF l(2,1)] c)
next
  show "stddev_b64 [Finite 1, Finite 3] (Finite 2) = Inr (Finite 1)"
    by (simp add: eval_fl stddev_b64_def fdiv_b64_def vsize_def of_size_def to_double_def and_then_simps)
qed

theorem stddev_b64_population_witness:
  "[Finite 2, Finite 4, Finite 4, Finite 4, Finite 5, Finite 5, Finite 7, Finite 9] \<noteq> []
   \<and> length [Finite 2, Finite 4, Finite 4, Finite 4, Finite 5, Finite 5, Finite 7, Finite 9] < 2 ^ 53
   \<and> stddev_b64 [Finite 2, Finite 4, Finite 4, Finite 4, Finite 5, Finite 5, Finite 7, Finite 9]
        (Finite 5) = Inr (Finite 2)
   \<and> (0::nat) < 4 \<and> (4::nat) < 2 ^ 53
   \<and> fl (1 / 4) = Finite (1 / 4) \<and> fl (2 / 4) = Finite (2 / 4)
   \<and> fl (3 / 4) = Finite (3 / 4) \<and> fl (4 / 4) = Finite (4 / 4)
   \<and> mean_b64 (replicate 4 (Finite (1 / 4))) = Inr (Finite (1 / 4))
   \<and> stddev_b64 (replicate 4 (Finite (1 / 4))) (Finite (1 / 4)) = Inr (Finite 0)"
proof -
  let ?v = "[Finite 2, Finite 4, Finite 4, Finite 4, Finite 5, Finite 5, Finite 7, Finite 9]"
  have f: "fl (1 / 4) = Finite (1 / 4)" "fl (2 / 4) = Finite (2 / 4)"
    "fl (3 / 4) = Finite (3 / 4)" "fl (4 / 4) = Finite (4 / 4)"
    by (simp_all add: eval_fl)
  have r: "\<forall>k. 1 \<le> k \<and> k \<le> 4 \<longrightarrow> fl (real k * (1 / 4)) = Finite (real k * (1 / 4))"
  proof (intro allI impI)
    fix k :: nat assume "1 \<le> k \<and> k \<le> 4"
    then consider "k = 1" | "k = 2" | "k = 3" | "k = 4" by linarith
    then show "fl (real k * (1 / 4)) = Finite (real k * (1 / 4))"
      using f by cases simp_all
  qed
  have e: "dsqrt (ddiv (foldl (\<lambda>sum x. dadd sum (dmul (dsub x (Finite 5)) (dsub x (Finite 5))))
                          (Finite 0) ?v) (Finite (real (length ?v)))) = Finite 2"
    by (simp add: eval_fl)
  note t = stddev_b64_population [of ?v "Finite 5" 4 "1 / 4"]
  show ?thesis
    using t r f e by simp
qed

text \<open>
  The mean of a constant sequence is not always its value: the running sum of ten
  copies of the double \<open>0.1\<close> is rounded on the way, and \<open>mean\<close> returns the double
  below \<open>0.1\<close>; \<open>stddev\<close> about that mean is \<open>2^-56\<close>, not 0.
\<close>

theorem stddev_b64_population_counterexample:
  "fl 0.1 = Finite (7205759403792794 / 2 ^ 56)
   \<and> mean_b64 (replicate 10 (fl 0.1)) = Inr (Finite (7205759403792793 / 2 ^ 56))
   \<and> mean_b64 (replicate 10 (fl 0.1)) \<noteq> Inr (fl 0.1)
   \<and> stddev_b64 (replicate 10 (fl 0.1)) (Finite (7205759403792793 / 2 ^ 56))
       = Inr (Finite (1 / 2 ^ 56))
   \<and> stddev_b64 (replicate 10 (fl 0.1)) (Finite (7205759403792793 / 2 ^ 56))
       \<noteq> Inr (Finite 0)"
proof -
  have a: "fl 0.1 = Finite (7205759403792794 / 2 ^ 56)"
    by (simp add: eval_fl)
  have m: "mean_b64 (replicate 10 (fl 0.1)) = Inr (Finite (7205759403792793 / 2 ^ 56))"
    by (simp add: eval_fl mean_b64_def fdiv_b64_def vsize_def of_size_def to_double_def
        replicate_numeral)
  have n: "mean_b64 (replicate 10 (fl 0.1)) \<noteq> Inr (fl 0.1)"
    unfolding m unfolding a by simp
  have "sqrt ((1 / 2 ^ 56) ^ 2) = 1 / 2 ^ 56"
    by (simp only: real_sqrt_abs) simp
  then have q: "sqrt (1 / 2 ^ 112) = 1 / 2 ^ 56"
    by (simp add: power_divide)
  have v: "ddiv (foldl (\<lambda>sum x. dadd sum (dmul (dsub x (Finite (7205759403792793 / 2 ^ 56)))
                                          (dsub x (Finite (7205759403792793 / 2 ^ 56)))))
             (Finite 0) (replicate 10 (Finite (7205759403792794 / 2 ^ 56)))) (of_size 10)
           = Finite (1 / 2 ^ 112)"
    by (simp add: eval_fl of_size_def to_double_def replicate_numeral)
  have f: "fl (1 / 2 ^ 56) = Finite (1 / 2 ^ 56)"
    by (simp add: eval_fl)
  have "\<not> (1 / 2 ^ 112 :: real) < 0" by simp
  then have "dsqrt (Finite (1 / 2 ^ 112)) = fl (sqrt (1 / 2 ^ 112))"
    by (simp only: dsqrt.simps if_False)
  then have "dsqrt (Finite (1 / 2 ^ 112)) = Finite (1 / 2 ^ 56)"
    by (simp only: q f)
  then have s: "stddev_b64 (replicate 10 (fl 0.1)) (Finite (7205759403792793 / 2 ^ 56))
       = Inr (Finite (1 / 2 ^ 56))"
    unfolding a stddev_b64_def fdiv_b64_def using v
    by (simp add: vsize_def and_then_simps)
  have z: "stddev_b64 (replicate 10 (fl 0.1)) (Finite (7205759403792793 / 2 ^ 56))
       \<noteq> Inr (Finite 0)"
    unfolding s by simp
  from a m n s z show ?thesis by (intro conjI)
qed

text \<open>
  Claim C10, amended. For every non-empty vector of fewer than \<open>2^53\<close> finite doubles,
  \<open>filter_outliers\<close> returns a non-empty result, which holds the first quartile \<open>q1\<close>;
  \<open>mean\<close>, \<open>stddev\<close>, \<open>percentile\<close> (for every \<open>p\<close> in \<open>[0, 1]\<close>), \<open>min_element\<close> and
  \<open>max_element\<close> return a value on it. So with samples that are finite doubles and a
  non-zero batch size every statistics call of \<open>print_stats\<close> and \<open>export_csv\<close>
  returns a value. On the empty vector \<open>mean\<close> and \<open>stddev\<close> divide by zero, \<open>N - 1\<close>
  wraps to \<open>2^64 - 1\<close> and \<open>percentile\<close> does not return a value.
\<close>

theorem reports_b64_never_fault:
  "(v \<noteq> [] \<longrightarrow> length v < 2 ^ 53 \<longrightarrow> list_all is_finite_double v \<longrightarrow>
      (\<exists>out q1 avg sd lo hi.
          filter_outliers_b64 v = Inr out \<and> out \<noteq> []
        \<and> percentile_b64 v (fl 0.25) = Inr q1 \<and> q1 \<in> set out
        \<and> mean_b64 out = Inr avg \<and> stddev_b64 out avg = Inr sd
        \<and> min_element_b64 out = Inr lo \<and> max_element_b64 out = Inr hi
        \<and> (\<forall>q. 0 \<le> q \<and> q \<le> 1 \<longrightarrow> (\<exists>y. percentile_b64 out (Finite q) = Inr y))))
   \<and> (length v < 2 ^ 53 \<longrightarrow> list_all is_finite_double v \<longrightarrow> bs \<noteq> 0 \<longrightarrow>
        (\<exists>r. report_calls_b64 bs v = Inr r))
   \<and> mean_b64 [] = Inl DivisionByZero
   \<and> stddev_b64 [] a = Inl DivisionByZero
   \<and> unat (vsize ([] :: double list) - 1) = 2 ^ 64 - 1
   \<and> (\<exists>e. percentile_b64 [] p = Inl e)"
proof (intro conjI impI)
  assume a: "v \<noteq> []" "length v < 2 ^ 53" "list_all is_finite_double v"
  obtain out q1 where o: "filter_outliers_b64 v = Inr out" "out \<noteq> []" "set out \<subseteq> set v"
    "length out \<le> length v" "percentile_b64 v (fl 0.25) = Inr q1" "q1 \<in> set out"
    by (rule filter_outliers_b64_finite [OF a])
  have l: "length out < 2 ^ 53" using o(4) a(2) by linarith
  have nan: "NaN \<notin> set out" using finite_no_NaN [OF a(3)] o(3) by auto
  obtain avg where avg: "mean_b64 out = Inr avg"
    using mean_b64_nonempty [OF o(2) l] ..
  obtain sd where sd: "stddev_b64 out avg = Inr sd"
    using stddev_b64_nonempty [OF o(2) l] ..
  have "\<exists>y. percentile_b64 out (Finite q) = Inr y" if "0 \<le> q \<and> q \<le> 1" for q
    using percentile_b64_total [OF o(2) l nan, of q] that by simp
  then show "\<exists>out q1 avg sd lo hi.
          filter_outliers_b64 v = Inr out \<and> out \<noteq> []
        \<and> percentile_b64 v (fl 0.25) = Inr q1 \<and> q1 \<in> set out
        \<and> mean_b64 out = Inr avg \<and> stddev_b64 out avg = Inr sd
        \<and> min_element_b64 out = Inr lo \<and> max_element_b64 out = Inr hi
        \<and> (\<forall>q. 0 \<le> q \<and> q \<le> 1 \<longrightarrow> (\<exists>y. percentile_b64 out (Finite q) = Inr y))"
    using o(1,2,5,6) avg sd min_element_b64_nonempty [OF o(2)] max_element_b64_nonempty [OF o(2)]
    by blast
next
  assume "length v < 2 ^ 53" "list_all is_finite_double v" "bs \<noteq> 0"
  then show "\<exists>r. report_calls_b64 bs v = Inr r" by (rule report_calls_b64_finite)
next
  show "mean_b64 [] = Inl DivisionByZero"
    by (simp add: mean_b64_def fdiv_b64_def vsize_def)
  show "stddev_b64 [] a = Inl DivisionByZero"
    by (simp add: stddev_b64_def fdiv_b64_def vsize_def and_then_simps)
  show "unat (vsize ([] :: double list) - 1) = 2 ^ 64 - 1"
    by (simp add: vsize_def unsigned_minus_1_eq_mask mask_eq_exp_minus_1)
  show "\<exists>e. percentile_b64 [] p = Inl e" by (rule percentile_b64_empty)
qed

theorem reports_b64_never_fault_witness:
  "map Finite [1, 2, 3, 4, 5, 100] \<noteq> [] \<and> length (map Finite [1, 2, 3, 4, 5, 100]) < 2 ^ 53
   \<and> list_all is_finite_double (map Finite [1, 2, 3, 4, 5, 100]) \<and> (2 :: size_t) \<noteq> 0
   \<and> filter_outliers_b64 (map Finite [1, 2, 3, 4, 5, 100]) = Inr (map Finite [1, 2, 3, 4, 5])
   \<and> percentile_b64 (map Finite [1, 2, 3, 4, 5, 100]) (fl 0.25) = Inr (Finite 2)
   \<and> mean_b64 (map Finite [1, 2, 3, 4, 5]) = Inr (Finite 3)
   \<and> stddev_b64 (map Finite [1, 2, 3, 4, 5]) (Finite 3) = Inr (dsqrt (Finite 2))
   \<and> min_element_b64 (map Finite [1, 2, 3, 4, 5]) = Inr (Finite 1)
   \<and> max_element_b64 (map Finite [1, 2, 3, 4, 5]) = Inr (Finite 5)
   \<and> percentile_b64 (map Finite [1, 2, 3, 4, 5]) (fl 0.99) = Inr (Finite 4)
   \<and> (\<exists>r. report_calls_b64 2 (map Finite [1, 2, 3, 4, 5, 100]) = Inr r)"
proof -
  let ?v = "map Finite [1, 2, 3, 4, 5, 100]"
  have h: "?v \<noteq> []" "length ?v < 2 ^ 53" "(2 :: size_t) \<noteq> 0" by simp_all
  have f: "list_all is_finite_double ?v"
    by (simp add: is_finite_double_def eval_fl)
  have e: "filter_outliers_b64 ?v = Inr (map Finite [1, 2, 3, 4, 5])"
    "percentile_b64 ?v (fl 0.25) = Inr (Finite 2)"
    "percentile_b64 (map Finite [1, 2, 3, 4, 5]) (fl 0.99) = Inr (Finite 4)"
    by (simp_all add: eval_fl filter_outliers_b64_def percentile_b64_def sort_b64_def order_key_def
        and_then_simps to_size_t_b64_def to_size_t_def toward_zero_def of_size_def to_double_def
        vsize_def subscript_def dge_def dle_def)
  have m: "mean_b64 (map Finite [1, 2, 3, 4, 5]) = Inr (Finite 3)"
    "min_element_b64 (map Finite [1, 2, 3, 4, 5]) = Inr (Finite 1)"
    "max_element_b64 (map Finite [1, 2, 3, 4, 5]) = Inr (Finite 5)"
    by (simp_all add: eval_fl mean_b64_def fdiv_b64_def vsize_def of_size_def to_double_def
        min_element_b64_def max_element_b64_def)
  have "foldl (\<lambda>sum x. dadd sum (dmul (dsub x (Finite 3)) (dsub x (Finite 3)))) (Finite 0)
          (map Finite [1, 2, 3, 4, 5]) = Finite 10"
    by (simp add: eval_fl)
  moreover have "ddiv (Finite 10) (of_size 5) = Finite 2"
    by (simp add: eval_fl of_size_def to_double_def)
  ultimately have s: "stddev_b64 (map Finite [1, 2, 3, 4, 5]) (Finite 3) = Inr (dsqrt (Finite 2))"
    by (simp add: stddev_b64_def fdiv_b64_def vsize_def and_then_simps)
  from reports_b64_never_fault [of ?v 2] h f
  have "\<exists>r. report_calls_b64 2 ?v = Inr r"
    by blast
  with h f e m s show ?thesis by (intro conjI)
qed

text \<open>
  Not every non-empty input has a non-empty result: on the one-element vector holding
  positive infinity both quartiles are infinite, \<open>iqr\<close> and with it both fences are NaN,
  no comparison holds and nothing is retained; the report functions then dereference
  the end iterator that \<open>std::min_element\<close> returns.
\<close>

theorem reports_b64_never_fault_counterexample:
  "[PosInf] \<noteq> []
   \<and> percentile_b64 [PosInf] (fl 0.25) = Inr PosInf
   \<and> percentile_b64 [PosInf] (fl 0.75) = Inr PosInf
   \<and> dsub PosInf PosInf = NaN
   \<and> filter_outliers_b64 [PosInf] = Inr []
   \<and> min_element_b64 [] = Inl EndIteratorDereferenced
   \<and> report_calls_b64 1 [PosInf] = Inl EndIteratorDereferenced"
  by (simp add: eval_fl report_calls_b64_def filter_outliers_b64_def percentile_b64_def sort_b64_def
      order_key_def and_then_simps to_size_t_b64_def to_size_t_def toward_zero_def of_size_def
      to_double_def vsize_def subscript_def dge_def dle_def min_element_b64_def)

end
